theory Spec2Isabelle
  imports Main
begin

section \<open>Data model of the supervisor\<close>

text \<open>
  Modelled from the spec: the enumerations \<open>TaskStatus\<close> and \<open>TaskType\<close> of
  \<open>mlcomp.db.enums\<close>, which is not among the sources. The members are those the sources
  name and the spec lists as task states. A status column holds the \<open>.value\<close> of a
  member, and distinct members have distinct values, so a column is modelled by the
  member itself.
\<close>

datatype TaskStatus = NotRan | Queued | InProgress | Failed | Stopped | Skipped | Success

datatype TaskType = User | Train | Service

text \<open>The exceptions the modelled code can raise.\<close>

datatype error = AttributeError | KeyError | IndexError | ValueError | Exception string

text \<open>
  Modelled from the spec: the model classes of \<open>mlcomp.db.models\<close> (\<open>Dag\<close>, \<open>Task\<close>,
  \<open>TaskDependence\<close>) are not among the sources; the records hold the attributes that the
  sources read and write. Of a \<open>Dag\<close> the scheduler reads only the worker image.
\<close>

record Dag =
  docker_img :: "string option"

text \<open>
  The \<open>distr_info\<close> entry of a task's \<open>additional_info\<close>. The column holds YAML text;
  the model keeps the dictionary that \<open>yaml_load\<close> yields and \<open>yaml_dump\<close> stores.
\<close>

record DistrInfo =
  master_addr :: string
  rank :: int
  local_rank :: int
  master_port :: int
  world_size :: int

text \<open>
  A row of the task table, at the same time the object the session hands out for it.
  The primary key \<open>id\<close> is named \<open>id_of\<close>. \<open>distr_info\<close> is the \<open>distr_info\<close> key of
  the parsed \<open>additional_info\<close>, \<open>None\<close> when the key is absent. \<open>cpu\<close> and \<open>memory\<close> are
  whole units.
\<close>

record Task =
  id_of :: int
  name :: string
  computer :: "string option"
  executor :: string
  status :: TaskStatus
  type :: TaskType
  cpu :: int
  memory :: int
  gpu :: int
  gpu_assigned :: "int option"
  computer_assigned :: "string option"
  celery_id :: "nat option"
  parent :: "int option"
  report :: "int option"
  dag :: int
  dag_rel :: "Dag option"
  debug :: bool
  started :: "int option"
  finished :: "int option"
  distr_info :: "DistrInfo option"

record TaskDependence =
  task_id :: int
  depend_id :: int

section \<open>Task provider\<close>

text \<open>
  \<open>TaskProvider.by_status\<close> without the optional \<open>docker_img\<close> and \<open>worker_index\<close>
  filters, which the supervisor never passes.
\<close>

definition by_status :: "TaskStatus list \<Rightarrow> Task list \<Rightarrow> Task list" where
  "by_status statuses table = filter (\<lambda>t. status t \<in> set statuses) table"

text \<open>
  \<open>res[item.task_id].append(task.status)\<close>: the value stored under every key of \<open>res\<close>
  is a Python \<open>set\<close>, and a \<open>set\<close> has no attribute \<open>append\<close>, so the attribute lookup
  raises \<open>AttributeError\<close> whatever the set and the status are.
\<close>

definition set_append :: "'a set \<Rightarrow> 'a \<Rightarrow> error + 'a set" where
  "set_append s x = Inl AttributeError"

text \<open>The \<open>for item, task in items\<close> loop of \<open>dependency_status\<close>.\<close>

fun dependency_status_loop ::
  "(TaskDependence \<times> Task) list \<Rightarrow> (int \<rightharpoonup> TaskStatus set) \<Rightarrow> error + (int \<rightharpoonup> TaskStatus set)"
where
  "dependency_status_loop [] res = Inr res"
| "dependency_status_loop ((item, task) # items) res =
     (case res (task_id item) of
        None \<Rightarrow> Inl KeyError
      | Some deps \<Rightarrow>
          (case set_append deps (status task) of
             Inl e \<Rightarrow> Inl e
           | Inr deps' \<Rightarrow> dependency_status_loop items (res(task_id item \<mapsto> deps'))))"

text \<open>
  \<open>TaskProvider.dependency_status\<close>. The query joins the dependence table with the task
  table on \<open>Task.id == TaskDependence.depend_id\<close>, restricted to the edges whose
  \<open>task_id\<close> belongs to the given tasks.
\<close>

definition dependency_items ::
  "Task list \<Rightarrow> TaskDependence list \<Rightarrow> int list \<Rightarrow> (TaskDependence \<times> Task) list" where
  "dependency_items table deps task_ids =
     concat (map (\<lambda>item. map (\<lambda>task. (item, task))
                              (filter (\<lambda>task. id_of task = depend_id item) table))
                 (filter (\<lambda>item. task_id item \<in> set task_ids) deps))"

definition dependency_status ::
  "Task list \<Rightarrow> TaskDependence list \<Rightarrow> Task list \<Rightarrow> error + (int \<rightharpoonup> TaskStatus set)" where
  "dependency_status table deps tasks =
     (let res = map_of (map (\<lambda>t. (id_of t, {})) tasks);
          task_ids = map id_of tasks;
          items = dependency_items table deps task_ids
      in dependency_status_loop items res)"

text \<open>
  \<open>TaskProvider.parent_tasks_stats\<close>: one entry for every task whose status is Queued or
  InProgress and that has at least one child (the join is an inner join), with the
  earliest start and the latest finish among the children and, for every member of
  \<open>TaskStatus\<close>, the number of children in that status.
\<close>

definition children_of :: "Task list \<Rightarrow> Task \<Rightarrow> Task list" where
  "children_of table p = filter (\<lambda>c. parent c = Some (id_of p)) table"

fun min_opt :: "int option list \<Rightarrow> int option" where
  "min_opt [] = None"
| "min_opt (None # xs) = min_opt xs"
| "min_opt (Some x # xs) = (case min_opt xs of None \<Rightarrow> Some x | Some y \<Rightarrow> Some (min x y))"

fun max_opt :: "int option list \<Rightarrow> int option" where
  "max_opt [] = None"
| "max_opt (None # xs) = max_opt xs"
| "max_opt (Some x # xs) = (case max_opt xs of None \<Rightarrow> Some x | Some y \<Rightarrow> Some (max x y))"

definition count_status :: "Task list \<Rightarrow> TaskStatus \<Rightarrow> nat" where
  "count_status cs e = length (filter (\<lambda>c. status c = e) cs)"

definition parent_tasks_stats ::
  "Task list \<Rightarrow> (Task \<times> int option \<times> int option \<times> (TaskStatus \<Rightarrow> nat)) list" where
  "parent_tasks_stats table =
     map (\<lambda>p. (p, min_opt (map started (children_of table p)),
                   max_opt (map finished (children_of table p)),
                   count_status (children_of table p)))
         (filter (\<lambda>p. status p \<in> {Queued, InProgress} \<and> children_of table p \<noteq> []) table)"

section \<open>Status aggregation\<close>

text \<open>
  The \<open>if\<close>/\<open>elif\<close> chain at the head of the loop of \<open>process_parent_tasks\<close>: the value
  of the local \<open>status\<close> for one entry of \<open>parent_tasks_stats\<close>, which the loop then
  stores in \<open>task.status\<close> when it differs from the stored one.
\<close>

definition parent_status :: "Task \<Rightarrow> (TaskStatus \<Rightarrow> nat) \<Rightarrow> TaskStatus" where
  "parent_status task statuses =
     (if statuses Failed > 0 then Failed
      else if statuses Skipped > 0 then Skipped
      else if statuses Queued > 0 then Queued
      else if statuses InProgress > 0 then InProgress
      else if statuses Success > 0 then Success
      else status task)"

section \<open>Python list and string operations\<close>

text \<open>
  Python's subscript on a sequence of \<open>n\<close> elements: \<open>i\<close> from \<open>0\<close> to \<open>n - 1\<close> names the
  position \<open>i\<close>, \<open>i\<close> from \<open>-n\<close> to \<open>-1\<close> the position \<open>n + i\<close>, and any other \<open>i\<close> raises
  \<open>IndexError\<close>. \<open>list_set\<close> is \<open>xs[i] = v\<close>, \<open>item\<close> is \<open>xs[i]\<close>.
\<close>

definition subscript :: "nat \<Rightarrow> int \<Rightarrow> nat option" where
  "subscript n i =
     (if 0 \<le> i \<and> i < int n then Some (nat i)
      else if - int n \<le> i \<and> i < 0 then Some (nat (int n + i))
      else None)"

definition list_set :: "'a list \<Rightarrow> int \<Rightarrow> 'a \<Rightarrow> error + 'a list" where
  "list_set xs i v =
     (case subscript (length xs) i of None \<Rightarrow> Inl IndexError | Some j \<Rightarrow> Inr (xs[j := v]))"

definition item :: "'a list \<Rightarrow> int \<Rightarrow> error + 'a" where
  "item xs i =
     (case subscript (length xs) i of None \<Rightarrow> Inl IndexError | Some j \<Rightarrow> Inr (xs ! j))"

text \<open>\<open>xs.index(v)\<close>: the position of the first occurrence, \<open>ValueError\<close> when there is none.\<close>

fun index :: "'a list \<Rightarrow> 'a \<Rightarrow> error + int" where
  "index [] v = Inl ValueError"
| "index (x # xs) v =
     (if x = v then Inr 0
      else case index xs v of Inl e \<Rightarrow> Inl e | Inr i \<Rightarrow> Inr (i + 1))"

text \<open>\<open>s.split(sep)\<close> for a separator of one character.\<close>

fun split :: "char \<Rightarrow> string \<Rightarrow> string list" where
  "split sep [] = [[]]"
| "split sep (c # cs) =
     (if c = sep then [] # split sep cs
      else case split sep cs of [] \<Rightarrow> [[c]] | w # ws \<Rightarrow> (c # w) # ws)"

text \<open>
  \<open>int(s)\<close> on the text of a port bound: a non-empty run of decimal digits gives its
  value. Any other text is reported as \<open>ValueError\<close>; Python's \<open>int\<close> accepts, beyond
  that, surrounding white space, a sign and single underscores between digits, which a
  port range \<open>low-high\<close> does not contain.
\<close>

definition digit :: "char \<Rightarrow> error + int" where
  "digit c = index ''0123456789'' c"

fun digits :: "string \<Rightarrow> int \<Rightarrow> error + int" where
  "digits [] acc = Inr acc"
| "digits (c # cs) acc =
     (case digit c of Inl e \<Rightarrow> Inl e | Inr d \<Rightarrow> digits cs (10 * acc + d))"

definition int_of :: "string \<Rightarrow> error + int" where
  "int_of s = (if s = [] then Inl ValueError else digits s 0)"

text \<open>\<open>list(map(int, parts))\<close>: the first text that is no integer raises.\<close>

fun map_int :: "string list \<Rightarrow> error + int list" where
  "map_int [] = Inr []"
| "map_int (p # ps) =
     (case int_of p of
        Inl e \<Rightarrow> Inl e
      | Inr n \<Rightarrow> (case map_int ps of Inl e \<Rightarrow> Inl e | Inr ns \<Rightarrow> Inr (n # ns)))"

section \<open>The supervisor's state\<close>

text \<open>
  Modelled from the spec: a value of the dictionary that \<open>computer_provider.computers()\<close>
  returns (the provider is not among the sources), with its key as \<open>row_name\<close>. The keys
  of a dictionary are distinct. \<open>row_gpu\<close> is the number of GPUs.
\<close>

record ComputerRow =
  row_name :: string
  row_ip :: string
  row_cpu :: int
  row_memory :: int
  row_gpu :: int

text \<open>
  An entry of \<open>self.computers\<close>: the dictionary \<open>c\<close> of the source, the key \<open>'cpu'\<close> as
  \<open>c_cpu\<close> and so on. A GPU slot holds 0 when it is free and the id of the task that
  occupies it otherwise.
\<close>

record Computer =
  c_name :: string
  c_ip :: string
  c_cpu :: int
  c_memory :: int
  c_gpu :: "int list"
  c_ports :: "int set"
  c_cpu_total :: int
  c_memory_total :: int
  c_gpu_total :: int

text \<open>Modelled from the spec: a docker of the registry, of which \<open>find_port\<close> reads the
  port range, a text \<open>low-high\<close>.\<close>

record Docker =
  ports :: string

text \<open>
  \<open>SupervisorBuilder\<close> together with the collaborators it talks to.
  \<^item> \<open>provider\<close> is the task table behind \<open>self.provider\<close>, \<open>task_dependence\<close> the
    dependence table, \<open>computer_provider\<close> the rows of \<open>computers()\<close>;
  \<^item> \<open>docker_provider\<close> is \<open>self.docker_provider.get\<close>, \<open>None\<close> when there is no such
    docker;
  \<^item> \<open>celery\<close> is the log of \<open>execute.apply_async\<close>: the task id and the queue of every
    submission. The handle of a submission is its position in the log;
  \<^item> \<open>task_defaults\<close> is a \<open>Task\<close> whose columns hold the defaults that the model class
    declares (\<open>mlcomp.db.models\<close>), \<open>now\<close> the reading of the clock;
  \<^item> \<open>queues\<close>, \<open>not_ran_tasks\<close>, \<open>dep_status\<close> and \<open>computers\<close> are the attributes of
    the same names. The diagnostic dictionary \<open>auxiliary\<close> is written and never read by
    the decisions, and is left out.
\<close>

record SupervisorBuilder =
  provider :: "Task list"
  task_dependence :: "TaskDependence list"
  computer_provider :: "ComputerRow list"
  docker_provider :: "string \<Rightarrow> string \<Rightarrow> Docker option"
  celery :: "(int \<times> string) list"
  task_defaults :: Task
  now :: int
  queues :: "string list"
  not_ran_tasks :: "Task list"
  dep_status :: "int \<rightharpoonup> TaskStatus set"
  computers :: "Computer list"

text \<open>
  Modelled from the spec: \<open>BaseDataProvider.update\<close> and \<open>commit\<close>
  (\<open>mlcomp.db.providers.base\<close> is not among the sources), the task store's "update task
  fields transactionally". After an object was changed the session writes the object to
  the row that has its primary key.
\<close>

definition update :: "Task \<Rightarrow> Task list \<Rightarrow> Task list" where
  "update task table = map (\<lambda>row. if id_of row = id_of task then task else row) table"

text \<open>
  Modelled from the spec: \<open>BaseDataProvider.add\<close> (not among the sources). Every task has
  an identity of its own: the row is inserted under a new primary key, which the database
  draws above every key of the table, and the object is returned with it.
\<close>

definition fresh_id :: "Task list \<Rightarrow> int" where
  "fresh_id table = fold max (map id_of table) 0 + 1"

definition add :: "Task \<Rightarrow> Task list \<Rightarrow> Task \<times> Task list" where
  "add obj table = (let row = obj\<lparr>id_of := fresh_id table\<rparr> in (row, table @ [row]))"

definition change_status :: "Task \<Rightarrow> TaskStatus \<Rightarrow> SupervisorBuilder \<Rightarrow> SupervisorBuilder" where
  "change_status task st s =
     (let task1 = (if st = InProgress then task\<lparr>started := Some (now s)\<rparr>
                   else if st \<in> {Failed, Stopped, Success} then task\<lparr>finished := Some (now s)\<rparr>
                   else task);
          task2 = task1\<lparr>status := st\<rparr>
      in s\<lparr>provider := update task2 (provider s)\<rparr>)"

section \<open>Loading the tick's snapshot\<close>

text \<open>
  \<open>load_tasks\<close>. A result \<open>(Some e, s')\<close> means that exception \<open>e\<close> left the function
  with the state \<open>s'\<close>; \<open>(None, s')\<close> is a normal return.
\<close>

definition load_tasks :: "SupervisorBuilder \<Rightarrow> error option \<times> SupervisorBuilder" where
  "load_tasks s =
     (let not_ran = by_status [NotRan] (provider s);
          s1 = s\<lparr>not_ran_tasks := filter (\<lambda>task. \<not> debug task) not_ran\<rparr>
      in case dependency_status (provider s1) (task_dependence s1) (not_ran_tasks s1) of
           Inl e \<Rightarrow> (Some e, s1)
         | Inr d \<Rightarrow> (None, s1\<lparr>dep_status := d\<rparr>))"

text \<open>The first loop of \<open>load_computers\<close>, for one computer.\<close>

definition init_computer :: "ComputerRow \<Rightarrow> Computer" where
  "init_computer r =
     (let gpu = replicate (nat (row_gpu r)) 0
      in \<lparr>c_name = row_name r, c_ip = row_ip r, c_cpu = row_cpu r, c_memory = row_memory r,
          c_gpu = gpu, c_ports = {}, c_cpu_total = row_cpu r, c_memory_total = row_memory r,
          c_gpu_total = int (length gpu)\<rparr>)"

text \<open>The body of the second loop of \<open>load_computers\<close> for a task that has a computer:
  what becomes of \<open>comp_assigned\<close>.\<close>

definition account :: "Task \<Rightarrow> Computer \<Rightarrow> error + Computer" where
  "account task comp_assigned =
     (let c1 = comp_assigned\<lparr>c_cpu := c_cpu comp_assigned - cpu task\<rparr>
      in case (case gpu_assigned task of
                 None \<Rightarrow> Inr c1
               | Some g \<Rightarrow> (case list_set (c_gpu c1) g (id_of task) of
                              Inl e \<Rightarrow> Inl e
                            | Inr gs \<Rightarrow> Inr (c1\<lparr>c_gpu := gs\<rparr>))) of
           Inl e \<Rightarrow> Inl e
         | Inr c2 \<Rightarrow>
             (let c3 = c2\<lparr>c_memory := c_memory c2 - memory task\<rparr>
              in Inr (case distr_info task of
                        None \<Rightarrow> c3
                      | Some dist_info \<Rightarrow>
                          if rank dist_info = 0
                          then c3\<lparr>c_ports := insert (master_port dist_info) (c_ports c3)\<rparr>
                          else c3)))"

text \<open>The second loop of \<open>load_computers\<close>; \<open>computers[assigned]\<close> raises \<open>KeyError\<close> when
  no computer has that name.\<close>

fun load_computers_loop :: "Task list \<Rightarrow> Computer list \<Rightarrow> error + Computer list" where
  "load_computers_loop [] cs = Inr cs"
| "load_computers_loop (task # tasks) cs =
     (case computer_assigned task of
        None \<Rightarrow> load_computers_loop tasks cs
      | Some assigned \<Rightarrow>
          (case find (\<lambda>c. c_name c = assigned) cs of
             None \<Rightarrow> Inl KeyError
           | Some comp_assigned \<Rightarrow>
               (case account task comp_assigned of
                  Inl e \<Rightarrow> Inl e
                | Inr c' \<Rightarrow>
                    load_computers_loop tasks
                      (map (\<lambda>c. if c_name c = assigned then c' else c) cs))))"

definition load_computers :: "SupervisorBuilder \<Rightarrow> error option \<times> SupervisorBuilder" where
  "load_computers s =
     (case load_computers_loop (by_status [Queued, InProgress] (provider s))
             (map init_computer (computer_provider s)) of
        Inl e \<Rightarrow> (Some e, s)
      | Inr cs \<Rightarrow> (None, s\<lparr>computers := cs\<rparr>))"

section \<open>Dispatch\<close>

text \<open>
  \<open>process_to_celery\<close>. The argument \<open>computer\<close> of the source is a reference to one of
  the dictionaries of \<open>self.computers\<close>; the model passes its position \<open>k\<close> in that list
  and writes the changes there. The submission is logged first; when the GPU slot
  assignment raises, the changed task object has not been written back.
\<close>

definition process_to_celery ::
  "Task \<Rightarrow> string \<Rightarrow> nat \<Rightarrow> SupervisorBuilder \<Rightarrow> error option \<times> SupervisorBuilder" where
  "process_to_celery task queue k s =
     (let r = length (celery s);
          s1 = s\<lparr>celery := celery s @ [(id_of task, queue)]\<rparr>;
          computer = computers s1 ! k;
          task1 = task\<lparr>status := Queued, computer_assigned := Some (c_name computer),
                       celery_id := Some r\<rparr>
      in case gpu_assigned task1 of
           None \<Rightarrow> (None, s1\<lparr>provider := update task1 (provider s1)\<rparr>)
         | Some g \<Rightarrow>
             (case list_set (c_gpu computer) g (id_of task1) of
                Inl e \<Rightarrow> (Some e, s1)
              | Inr gs \<Rightarrow>
                  (None, s1\<lparr>computers := (computers s1)
                               [k := computer\<lparr>c_gpu := gs,
                                              c_cpu := c_cpu computer - cpu task1,
                                              c_memory := c_memory computer - memory task1\<rparr>],
                             provider := update task1 (provider s1)\<rparr>)))"

text \<open>
  \<open>create_service_task\<close>. \<open>Task(...)\<close> leaves the columns it does not name at their
  defaults; \<open>dag_rel\<close> is the relationship over the copied \<open>dag\<close> key, hence the parent's.
  \<open>if distr_info:\<close> holds for a dictionary that has keys and fails for \<open>None\<close>.
\<close>

definition create_service_task ::
  "Task \<Rightarrow> int option \<Rightarrow> DistrInfo option \<Rightarrow> SupervisorBuilder \<Rightarrow> Task \<times> SupervisorBuilder" where
  "create_service_task task gpu_assigned' distr_info' s =
     (let new_task = (task_defaults s)\<lparr>name := name task, computer := computer task,
                        executor := executor task, status := NotRan, type := Service,
                        gpu_assigned := gpu_assigned', parent := Some (id_of task),
                        report := report task, dag := dag task, dag_rel := dag_rel task\<rparr>;
          new_task1 = new_task\<lparr>distr_info := distr_info task\<rparr>;
          new_task2 = (case distr_info' of
                         None \<Rightarrow> new_task1
                       | Some d \<Rightarrow> new_task1\<lparr>distr_info := Some d\<rparr>);
          (row, table) = add new_task2 (provider s)
      in (row, s\<lparr>provider := table\<rparr>))"

section \<open>Rendezvous port\<close>

text \<open>\<open>find_port\<close>: the first port of the docker's range \<open>low-high\<close> that is not reserved
  on the computer.\<close>

definition find_port :: "SupervisorBuilder \<Rightarrow> Computer \<Rightarrow> string \<Rightarrow> error + int" where
  "find_port s c docker_name =
     (case docker_provider s (c_name c) docker_name of
        None \<Rightarrow> Inl AttributeError
      | Some docker \<Rightarrow>
          (case map_int (split CHR ''-'' (ports docker)) of
             Inl e \<Rightarrow> Inl e
           | Inr ps \<Rightarrow>
               (case item ps 0 of
                  Inl e \<Rightarrow> Inl e
                | Inr p0 \<Rightarrow>
                    (case item ps 1 of
                       Inl e \<Rightarrow> Inl e
                     | Inr p1 \<Rightarrow>
                         (case find (\<lambda>p. p \<notin> c_ports c) [p0..p1] of
                            Some p \<Rightarrow> Inr p
                          | None \<Rightarrow>
                              Inl (Exception (''All ports in '' @ c_name c @ '' are taken'')))))))"

text \<open>
  The local \<open>master_port\<close> of \<open>process_task\<close> for a non-empty \<open>to_send\<close>:
  \<open>self.find_port(to_send[0][0], to_send[0][1].split('_')[1])\<close>, where \<open>k0\<close> is the
  position of the computer \<open>to_send[0][0]\<close> and \<open>queue0\<close> is \<open>to_send[0][1]\<close>.
\<close>

definition find_master_port :: "SupervisorBuilder \<Rightarrow> nat \<Rightarrow> string \<Rightarrow> error + int" where
  "find_master_port s k0 queue0 =
     (case item (split CHR ''_'' queue0) 1 of
        Inl e \<Rightarrow> Inl e
      | Inr docker_name \<Rightarrow> find_port s (computers s ! k0) docker_name)"

section \<open>Placement\<close>

text \<open>The queue \<open>f'{c["name"]}_{task.dag_rel.docker_img or "default"}'\<close>; a task without
  dag raises on \<open>task.dag_rel.docker_img\<close>.\<close>

definition queue_of :: "Computer \<Rightarrow> Task \<Rightarrow> error + string" where
  "queue_of c task =
     (case dag_rel task of
        None \<Rightarrow> Inl AttributeError
      | Some d \<Rightarrow>
          Inr (c_name c @ ''_'' @
               (case docker_img d of
                  None \<Rightarrow> ''default''
                | Some img \<Rightarrow> if img = [] then ''default'' else img)))"

text \<open>\<open>valid_computer\<close> returns a message that names the reason of a rejection, and
  \<open>None\<close> for a candidate; the model keeps the reason, not the wording.\<close>

datatype rejection = NameDiffers | CpuShort | MemoryShort | QueueMissing | GpuTaken

definition valid_computer ::
  "SupervisorBuilder \<Rightarrow> Task \<Rightarrow> Computer \<Rightarrow> error + rejection option" where
  "valid_computer s task c =
     (if computer task \<noteq> None \<and> computer task \<noteq> Some (c_name c) then Inr (Some NameDiffers)
      else if cpu task > c_cpu c then Inr (Some CpuShort)
      else if memory task > c_memory c then Inr (Some MemoryShort)
      else case queue_of c task of
             Inl e \<Rightarrow> Inl e
           | Inr queue \<Rightarrow>
               if queue \<notin> set (queues s) then Inr (Some QueueMissing)
               else if gpu task > 0 \<and> \<not> (\<exists>g \<in> set (c_gpu c). g = 0) then Inr (Some GpuTaken)
               else Inr None)"

text \<open>The loop that fills the local list \<open>computers\<close> of \<open>process_task\<close>, over the
  positions of \<open>self.computers\<close>.\<close>

fun candidates :: "SupervisorBuilder \<Rightarrow> Task \<Rightarrow> nat list \<Rightarrow> error + nat list" where
  "candidates s task [] = Inr []"
| "candidates s task (k # ks) =
     (case valid_computer s task (computers s ! k) of
        Inl e \<Rightarrow> Inl e
      | Inr err \<Rightarrow>
          (case candidates s task ks of
             Inl e \<Rightarrow> Inl e
           | Inr cs \<Rightarrow> Inr (if err = None then k # cs else cs)))"

definition free_slots :: "Computer \<Rightarrow> nat" where
  "free_slots c = length (filter (\<lambda>g. g = 0) (c_gpu c))"

definition free_gpu :: "SupervisorBuilder \<Rightarrow> nat list \<Rightarrow> nat" where
  "free_gpu s ks = sum_list (map (\<lambda>k. free_slots (computers s ! k)) ks)"

text \<open>
  The inner loop \<open>for task_taken_gpu in computer['gpu']\<close> with its counter \<open>index\<close>.
  \<open>continue\<close> skips an occupied slot before the counter is advanced. The accumulator is
  \<open>to_send\<close> with \<open>computer_gpu_taken\<close>; the loop breaks off once \<open>to_send\<close> holds
  \<open>task.gpu\<close> entries.
\<close>

type_synonym to_send = "(nat \<times> string \<times> int) list"

fun take_gpus ::
  "Task \<Rightarrow> nat \<Rightarrow> string \<Rightarrow> string \<Rightarrow> int list \<Rightarrow> int \<Rightarrow>
   to_send \<times> (string \<Rightarrow> int list) \<Rightarrow> to_send \<times> (string \<Rightarrow> int list)"
where
  "take_gpus task k queue nm [] idx acc = acc"
| "take_gpus task k queue nm (task_taken_gpu # gs) idx (to_send, taken) =
     (if task_taken_gpu \<noteq> 0 then take_gpus task k queue nm gs idx (to_send, taken)
      else let to_send' = to_send @ [(k, queue, idx)];
               taken' = taken(nm := taken nm @ [idx])
           in if int (length to_send') \<ge> gpu task then (to_send', taken')
              else take_gpus task k queue nm gs (idx + 1) (to_send', taken'))"

text \<open>The loop \<open>for computer in computers\<close> for a task with \<open>task.gpu > 0\<close>.\<close>

fun collect ::
  "SupervisorBuilder \<Rightarrow> Task \<Rightarrow> nat list \<Rightarrow> to_send \<times> (string \<Rightarrow> int list) \<Rightarrow>
   error + to_send \<times> (string \<Rightarrow> int list)"
where
  "collect s task [] acc = Inr acc"
| "collect s task (k # ks) acc =
     (let computer = computers s ! k
      in case queue_of computer task of
           Inl e \<Rightarrow> Inl e
         | Inr queue \<Rightarrow>
             (let acc' = take_gpus task k queue (c_name computer) (c_gpu computer) 0 acc
              in if int (length (fst acc')) \<ge> gpu task then Inr acc'
                 else collect s task ks acc'))"

text \<open>The loop \<open>for computer, queue, gpu_assigned in to_send\<close>; \<open>k0\<close> is \<open>to_send[0][0]\<close>.\<close>

fun send ::
  "Task \<Rightarrow> (string \<Rightarrow> int list) \<Rightarrow> nat \<Rightarrow> int \<Rightarrow> to_send \<Rightarrow> int \<Rightarrow> SupervisorBuilder \<Rightarrow>
   error option \<times> SupervisorBuilder"
where
  "send task taken k0 port [] rnk s = (None, s)"
| "send task taken k0 port ((k, queue, gpu_assigned') # rest) rnk s =
     (let computer = computers s ! k;
          gpu_visible = taken (c_name computer);
          main_cmp = computers s ! k0;
          ip = (if c_name computer = c_name main_cmp then ''localhost'' else c_ip main_cmp)
      in case index gpu_visible gpu_assigned' of
           Inl e \<Rightarrow> (Some e, s)
         | Inr lr \<Rightarrow>
             (let info = \<lparr>master_addr = ip, rank = rnk, local_rank = lr,
                          master_port = port, world_size = gpu task\<rparr>;
                  (service_task, s1) = create_service_task task (Some gpu_assigned') (Some info) s
              in case process_to_celery service_task queue k s1 of
                   (Some e, s2) \<Rightarrow> (Some e, s2)
                 | (None, s2) \<Rightarrow> send task taken k0 port rest (rnk + 1) s2))"

text \<open>
  \<open>process_task\<close>. The test \<open>task.gpu > 0\<close> inside the loop over the candidates does not
  change during the loop, so the model takes it first: the multi-GPU branch collects,
  the other branch dispatches to the first candidate and breaks.
\<close>

definition process_task :: "Task \<Rightarrow> SupervisorBuilder \<Rightarrow> error option \<times> SupervisorBuilder" where
  "process_task task s =
     (case candidates s task [0..<length (computers s)] of
        Inl e \<Rightarrow> (Some e, s)
      | Inr cands \<Rightarrow>
          if gpu task > int (free_gpu s cands) then (None, s)
          else if gpu task > 0 then
            (case collect s task cands ([], \<lambda>_. []) of
               Inl e \<Rightarrow> (Some e, s)
             | Inr (to_send, taken) \<Rightarrow>
                 (case to_send of
                    [] \<Rightarrow> (None, s)
                  | (k0, queue0, _) # _ \<Rightarrow>
                      (case find_master_port s k0 queue0 of
                         Inl e \<Rightarrow> (Some e, s)
                       | Inr port \<Rightarrow>
                           (case send task taken k0 port to_send 0 s of
                              (Some e, s') \<Rightarrow> (Some e, s')
                            | (None, s') \<Rightarrow>
                                (None, s'\<lparr>provider :=
                                           update (task\<lparr>status := Queued\<rparr>) (provider s')\<rparr>)))))
          else
            (case cands of
               [] \<Rightarrow> (None, s)
             | k # _ \<Rightarrow>
                 (case queue_of (computers s ! k) task of
                    Inl e \<Rightarrow> (Some e, s)
                  | Inr queue \<Rightarrow> process_to_celery task queue k s)))"

text \<open>\<open>process_tasks\<close>: the loop over \<open>self.not_ran_tasks\<close>.\<close>

fun process_tasks_loop :: "Task list \<Rightarrow> SupervisorBuilder \<Rightarrow> error option \<times> SupervisorBuilder" where
  "process_tasks_loop [] s = (None, s)"
| "process_tasks_loop (task # tasks) s =
     (case dag_rel task of
        None \<Rightarrow> process_tasks_loop tasks s
      | Some _ \<Rightarrow>
          (case dep_status s (id_of task) of
             None \<Rightarrow> (Some KeyError, s)
           | Some deps \<Rightarrow>
               if Stopped \<in> deps \<or> Failed \<in> deps
               then process_tasks_loop tasks (change_status task Skipped s)
               else if deps \<noteq> {} \<and> deps \<noteq> {Success} then process_tasks_loop tasks s
               else (case process_task task s of
                       (Some e, s') \<Rightarrow> (Some e, s')
                     | (None, s') \<Rightarrow> process_tasks_loop tasks s')))"

definition process_tasks :: "SupervisorBuilder \<Rightarrow> error option \<times> SupervisorBuilder" where
  "process_tasks s = process_tasks_loop (not_ran_tasks s) s"

section \<open>Notions used in the proofs\<close>

text \<open>
  Two lists of computers have the same frame when they agree, position by position, on
  what placement never writes: the name, the address, the reserved ports and the number
  of GPU slots.
\<close>

definition same_frame :: "Computer list \<Rightarrow> Computer list \<Rightarrow> bool" where
  "same_frame cs cs' \<longleftrightarrow>
     length cs' = length cs \<and>
     (\<forall>j. c_name (cs' ! j) = c_name (cs ! j) \<and> c_ip (cs' ! j) = c_ip (cs ! j) \<and>
          c_ports (cs' ! j) = c_ports (cs ! j) \<and>
          length (c_gpu (cs' ! j)) = length (c_gpu (cs ! j)))"

text \<open>
  The attributes and collaborators that only \<open>create_base\<close>, \<open>load_tasks\<close> and
  \<open>load_computers\<close> write.
\<close>

definition readonly :: "SupervisorBuilder \<Rightarrow> SupervisorBuilder \<Rightarrow> bool" where
  "readonly s s' \<longleftrightarrow>
     queues s' = queues s \<and> dep_status s' = dep_status s \<and>
     docker_provider s' = docker_provider s \<and> task_defaults s' = task_defaults s \<and>
     now s' = now s \<and> not_ran_tasks s' = not_ran_tasks s \<and>
     task_dependence s' = task_dependence s \<and> computer_provider s' = computer_provider s"

text \<open>
  \<open>rank_row\<close>: the row \<open>r\<close> is the dispatched service task of \<open>task\<close> for the entry \<open>e\<close>
  of \<open>to_send\<close> with rank \<open>rnk\<close>, rendezvous host \<open>k0\<close> and rendezvous port \<open>port\<close>.
  \<open>rank_rows\<close> pairs the entries of \<open>to_send\<close> with rows, the ranks counting up.
\<close>

definition rank_row ::
  "Computer list \<Rightarrow> Task \<Rightarrow> nat \<Rightarrow> int \<Rightarrow> int \<Rightarrow> nat \<times> string \<times> int \<Rightarrow> Task \<Rightarrow> bool" where
  "rank_row cs task k0 port rnk e r \<longleftrightarrow>
     (case e of (k, q, g) \<Rightarrow>
        type r = Service \<and> parent r = Some (id_of task) \<and> status r = Queued \<and>
        gpu_assigned r = Some g \<and> computer_assigned r = Some (c_name (cs ! k)) \<and>
        (\<exists>lr. distr_info r =
           Some \<lparr>master_addr = (if c_name (cs ! k) = c_name (cs ! k0) then ''localhost''
                                else c_ip (cs ! k0)),
                 rank = rnk, local_rank = lr, master_port = port, world_size = gpu task\<rparr>))"

fun rank_rows ::
  "Computer list \<Rightarrow> Task \<Rightarrow> nat \<Rightarrow> int \<Rightarrow> int \<Rightarrow> to_send \<Rightarrow> Task list \<Rightarrow> bool" where
  "rank_rows cs task k0 port rnk [] [] = True"
| "rank_rows cs task k0 port rnk (e # es) (r # rs) =
     (rank_row cs task k0 port rnk e r \<and> rank_rows cs task k0 port (rnk + 1) es rs)"
| "rank_rows cs task k0 port rnk _ _ = False"

text \<open>
  A \<open>to_send\<close> list can be sent without an exception when every GPU index it holds is
  recorded in \<open>computer_gpu_taken\<close> for its computer and is a position of that
  computer's slot list.
\<close>

definition sendable :: "Computer list \<Rightarrow> (string \<Rightarrow> int list) \<Rightarrow> to_send \<Rightarrow> bool" where
  "sendable cs taken ts \<longleftrightarrow>
     (\<forall>(k, q, g) \<in> set ts. g \<in> set (taken (c_name (cs ! k))) \<and>
                            0 \<le> g \<and> g < int (length (c_gpu (cs ! k))))"

text \<open>
  What one step of the tick leaves alone. \<open>rows_kept I\<close>: the table keeps its rows in
  place, each with its primary key, and only rows whose key is in \<open>I\<close> change.
  \<open>sent_only J\<close>: every new submission to the work queue carries a key of \<open>J\<close> or a
  key that the table did not hold before.
\<close>

definition rows_kept :: "int set \<Rightarrow> Task list \<Rightarrow> Task list \<Rightarrow> bool" where
  "rows_kept I old new \<longleftrightarrow>
     length old \<le> length new \<and>
     (\<forall>i < length old. id_of (new ! i) = id_of (old ! i) \<and>
                       (id_of (old ! i) \<notin> I \<longrightarrow> new ! i = old ! i))"

definition sent_only :: "int set \<Rightarrow> SupervisorBuilder \<Rightarrow> SupervisorBuilder \<Rightarrow> bool" where
  "sent_only J s s' \<longleftrightarrow>
     (\<exists>news. celery s' = celery s @ news \<and>
        (\<forall>x \<in> fst ` set news. x \<in> J \<or> x \<notin> id_of ` set (provider s)))"

definition untouched :: "int set \<Rightarrow> int set \<Rightarrow> SupervisorBuilder \<Rightarrow> SupervisorBuilder \<Rightarrow> bool" where
  "untouched I J s s' \<longleftrightarrow>
     rows_kept I (provider s) (provider s') \<and> sent_only J s s' \<and>
     readonly s s' \<and> same_frame (computers s) (computers s')"

text \<open>
  The guards of \<open>process_tasks\<close> let a task through to \<open>process_task\<close> when it has a
  dag and its dependency statuses hold neither Stopped nor Failed and are empty or
  exactly \<open>{Success}\<close>.
\<close>

definition runnable :: "SupervisorBuilder \<Rightarrow> Task \<Rightarrow> bool" where
  "runnable s task \<longleftrightarrow>
     dag_rel task \<noteq> None \<and>
     (\<exists>deps. dep_status s (id_of task) = Some deps \<and> Stopped \<notin> deps \<and> Failed \<notin> deps \<and>
             (deps = {} \<or> deps = {Success}))"



section \<open>Example snapshots\<close>

text \<open>A user task without requirements beyond one CPU and one unit of memory, in a dag
  that names no worker image; the examples below vary it.\<close>

definition task0 :: Task where
  "task0 = \<lparr>id_of = 0, name = ''train'', computer = None, executor = ''e'', status = NotRan,
     type = User, cpu = 1, memory = 1, gpu = 0, gpu_assigned = None, computer_assigned = None,
     celery_id = None, parent = None, report = None, dag = 1,
     dag_rel = Some \<lparr>docker_img = None\<rparr>, debug = False, started = None, finished = None,
     distr_info = None\<rparr>"

text \<open>A parent task 1 in status Queued with two children, one finished and one running.\<close>

definition family :: "Task list" where
  "family = [task0\<lparr>id_of := 1, status := Queued\<rparr>,
             task0\<lparr>id_of := 2, status := Success, parent := Some 1\<rparr>,
             task0\<lparr>id_of := 3, status := InProgress, parent := Some 1\<rparr>]"

text \<open>
  Computer A with 8 CPUs, 16 units of memory and two free GPUs, computer B with one free
  GPU. In \<open>snapshot\<close> only A is known; the queues of the images \<open>default\<close> and \<open>gpu\<close>
  are alive on A, the docker \<open>default\<close> declares the ports 7000 to 7001 and the docker
  \<open>gpu\<close> the ports 8000 to 8001.
\<close>

definition computer_A :: Computer where
  "computer_A = \<lparr>c_name = ''A'', c_ip = ''10.0.0.1'', c_cpu = 8, c_memory = 16, c_gpu = [0, 0],
     c_ports = {}, c_cpu_total = 8, c_memory_total = 16, c_gpu_total = 2\<rparr>"

definition computer_B :: Computer where
  "computer_B = \<lparr>c_name = ''B'', c_ip = ''10.0.0.2'', c_cpu = 4, c_memory = 8, c_gpu = [0],
     c_ports = {}, c_cpu_total = 4, c_memory_total = 8, c_gpu_total = 1\<rparr>"

definition snapshot :: SupervisorBuilder where
  "snapshot = \<lparr>provider = [], task_dependence = [], computer_provider = [],
     docker_provider = (\<lambda>c n. if n = ''default'' then Some \<lparr>ports = ''7000-7001''\<rparr>
                              else if n = ''gpu'' then Some \<lparr>ports = ''8000-8001''\<rparr> else None),
     celery = [], task_defaults = task0, now = 0,
     queues = [''A_default'', ''A_gpu'', ''B_default''], not_ran_tasks = [],
     dep_status = Map.empty, computers = [computer_A]\<rparr>"

text \<open>
  Tasks: \<open>task_T\<close> asks for 2 CPUs and 4 units of memory and no GPU, \<open>task_G\<close> for two
  GPUs, \<open>task_G1\<close> and \<open>task_H1\<close> for one GPU each, and \<open>task_I1\<close> for one GPU in a dag
  of the image \<open>gpu\<close>.
\<close>

definition task_T :: Task where
  "task_T = task0\<lparr>id_of := 5, cpu := 2, memory := 4\<rparr>"

definition task_G :: Task where
  "task_G = task0\<lparr>id_of := 5, gpu := 2\<rparr>"

definition task_G1 :: Task where
  "task_G1 = task0\<lparr>id_of := 5, gpu := 1\<rparr>"

definition task_H1 :: Task where
  "task_H1 = task0\<lparr>id_of := 6, gpu := 1\<rparr>"

definition task_I1 :: Task where
  "task_I1 = task0\<lparr>id_of := 6, gpu := 1, dag_rel := Some \<lparr>docker_img = Some ''gpu''\<rparr>\<rparr>"

text \<open>
  Snapshots for the placement examples: the task table holds the task or tasks to place;
  \<open>cluster_ports_taken\<close> has one free GPU and both ports of the range reserved,
  \<open>cluster_busy\<close> has GPU slot 0 occupied by task 7 and slot 1 free, \<open>cluster_AB\<close> has one
  free GPU on A and one on B.
\<close>

definition cluster_T :: SupervisorBuilder where
  "cluster_T = snapshot\<lparr>provider := [task_T]\<rparr>"

definition cluster_G :: SupervisorBuilder where
  "cluster_G = snapshot\<lparr>provider := [task_G]\<rparr>"

definition cluster_ports_taken :: SupervisorBuilder where
  "cluster_ports_taken =
     snapshot\<lparr>provider := [task_G1],
              computers := [computer_A\<lparr>c_gpu := [0], c_ports := {7000, 7001}\<rparr>]\<rparr>"

definition cluster_busy :: SupervisorBuilder where
  "cluster_busy = snapshot\<lparr>provider := [task_G1], computers := [computer_A\<lparr>c_gpu := [7, 0]\<rparr>]\<rparr>"

definition cluster_AB :: SupervisorBuilder where
  "cluster_AB = snapshot\<lparr>provider := [task_G], computers := [computer_A\<lparr>c_gpu := [0]\<rparr>, computer_B]\<rparr>"

definition cluster_GH :: SupervisorBuilder where
  "cluster_GH = snapshot\<lparr>provider := [task_G1, task_H1]\<rparr>"

definition cluster_GI :: SupervisorBuilder where
  "cluster_GI = snapshot\<lparr>provider := [task_G1, task_I1]\<rparr>"

text \<open>
  Snapshots for the Dependency Gate: task 2 is NotRan and depends on task 1, which is
  Failed in \<open>gate_failed\<close> and Skipped in \<open>gate_skipped\<close>.
\<close>

definition gate_failed :: SupervisorBuilder where
  "gate_failed =
     snapshot\<lparr>provider := [task0\<lparr>id_of := 1, status := Failed\<rparr>, task0\<lparr>id_of := 2\<rparr>],
              not_ran_tasks := [task0\<lparr>id_of := 2\<rparr>],
              dep_status := [2 \<mapsto> {Failed}]\<rparr>"

definition gate_skipped :: SupervisorBuilder where
  "gate_skipped =
     snapshot\<lparr>provider := [task0\<lparr>id_of := 1, status := Skipped\<rparr>, task0\<lparr>id_of := 2\<rparr>],
              not_ran_tasks := [task0\<lparr>id_of := 2\<rparr>],
              dep_status := [2 \<mapsto> {Skipped}]\<rparr>"

text \<open>
  Snapshots before loading: \<open>tick_debug\<close> holds a NotRan task with the debug flag and
  one without; \<open>booked\<close> holds a Queued task on A within A's capacity, \<open>overbooked\<close>
  one that asks for more than A has.
\<close>

definition row_A :: ComputerRow where
  "row_A = \<lparr>row_name = ''A'', row_ip = ''10.0.0.1'', row_cpu = 8, row_memory = 16, row_gpu = 2\<rparr>"

definition tick_debug :: SupervisorBuilder where
  "tick_debug =
     snapshot\<lparr>provider := [task0\<lparr>id_of := 1, debug := True\<rparr>, task0\<lparr>id_of := 2\<rparr>],
              computer_provider := [row_A], computers := []\<rparr>"

definition booked :: SupervisorBuilder where
  "booked =
     snapshot\<lparr>provider := [task0\<lparr>id_of := 1, status := Queued, cpu := 2, memory := 4,
                                computer_assigned := Some ''A''\<rparr>],
              computer_provider := [row_A], computers := []\<rparr>"

definition overbooked :: SupervisorBuilder where
  "overbooked =
     snapshot\<lparr>provider := [task0\<lparr>id_of := 1, status := Queued, cpu := 9, memory := 17,
                                computer_assigned := Some ''A''\<rparr>],
              computer_provider := [row_A], computers := []\<rparr>"

lemmas fixture_defs = task0_def computer_A_def computer_B_def snapshot_def task_T_def task_G_def
  cluster_G_def task_G1_def task_H1_def task_I1_def cluster_T_def cluster_ports_taken_def
  cluster_busy_def cluster_AB_def cluster_GH_def cluster_GI_def gate_failed_def gate_skipped_def
  row_A_def tick_debug_def booked_def overbooked_def

section \<open>Dependency status\<close>

text \<open>
  C1. The dependency-status computation is claimed to return, for every list of NotRan
  tasks, the mapping from each task's id to the statuses of the tasks it depends on.
  On the code it raises as soon as one of the tasks has a dependency: task 2 is NotRan
  and depends on the finished task 1, and \<open>dependency_status\<close> ends in \<open>AttributeError\<close>.
\<close>

theorem dependency_status_raises:
  "dependency_status [task0\<lparr>id_of := 1, status := Success\<rparr>, task0\<lparr>id_of := 2\<rparr>]
     [\<lparr>task_id = 2, depend_id = 1\<rparr>] [task0\<lparr>id_of := 2\<rparr>] = Inl AttributeError"
  by (simp add: dependency_status_def dependency_items_def set_append_def task0_def)

section \<open>Status aggregation: precedence\<close>

lemma count_status_pos: "0 < count_status cs e \<longleftrightarrow> e \<in> status ` set cs"
  by (induction cs) (auto simp: count_status_def)

text \<open>
  C6. Every task of the table that is Queued or InProgress and has at least one child
  has an entry in \<open>parent_tasks_stats\<close>, and for every such entry the recomputed status
  follows the precedence Failed, Skipped, Queued, InProgress, Success over the statuses
  of the children (and stays what it was when no child is in one of these). In
  particular children in \<open>{Success, InProgress}\<close> give InProgress, in \<open>{Success, Failed}\<close>
  give Failed and in \<open>{Success}\<close> give Success.
\<close>

theorem parent_status_precedence:
  assumes "p \<in> set table" and "status p = Queued \<or> status p = InProgress"
    and "children_of table p \<noteq> []"
  shows "(\<exists>st fin statuses. (p, st, fin, statuses) \<in> set (parent_tasks_stats table)) \<and>
         (\<forall>st fin statuses. (p, st, fin, statuses) \<in> set (parent_tasks_stats table) \<longrightarrow>
            parent_status p statuses =
              (if Failed \<in> status ` set (children_of table p) then Failed
               else if Skipped \<in> status ` set (children_of table p) then Skipped
               else if Queued \<in> status ` set (children_of table p) then Queued
               else if InProgress \<in> status ` set (children_of table p) then InProgress
               else if Success \<in> status ` set (children_of table p) then Success
               else status p) \<and>
            (status ` set (children_of table p) = {Success, InProgress} \<longrightarrow>
               parent_status p statuses = InProgress) \<and>
            (status ` set (children_of table p) = {Success, Failed} \<longrightarrow>
               parent_status p statuses = Failed) \<and>
            (status ` set (children_of table p) = {Success} \<longrightarrow>
               parent_status p statuses = Success))"
proof -
  have ex: "\<exists>st fin statuses. (p, st, fin, statuses) \<in> set (parent_tasks_stats table)"
    using assms by (auto simp: parent_tasks_stats_def image_iff)
  have all: "parent_status p statuses =
              (if Failed \<in> status ` set (children_of table p) then Failed
               else if Skipped \<in> status ` set (children_of table p) then Skipped
               else if Queued \<in> status ` set (children_of table p) then Queued
               else if InProgress \<in> status ` set (children_of table p) then InProgress
               else if Success \<in> status ` set (children_of table p) then Success
               else status p)"
    if "(p, st, fin, statuses) \<in> set (parent_tasks_stats table)" for st fin statuses
  proof -
    from that have eq: "statuses = count_status (children_of table p)"
      by (auto simp: parent_tasks_stats_def)
    show ?thesis
      unfolding parent_status_def eq count_status_pos by simp
  qed
  have e1: "parent_status p statuses = InProgress"
    if "(p, st, fin, statuses) \<in> set (parent_tasks_stats table)"
      and eq: "status ` set (children_of table p) = {Success, InProgress}" for st fin statuses
    unfolding all [OF that(1)] eq by simp
  have e2: "parent_status p statuses = Failed"
    if "(p, st, fin, statuses) \<in> set (parent_tasks_stats table)"
      and eq: "status ` set (children_of table p) = {Success, Failed}" for st fin statuses
    unfolding all [OF that(1)] eq by simp
  have e3: "parent_status p statuses = Success"
    if "(p, st, fin, statuses) \<in> set (parent_tasks_stats table)"
      and eq: "status ` set (children_of table p) = {Success}" for st fin statuses
    unfolding all [OF that(1)] eq by simp
  show ?thesis
    using ex all e1 e2 e3 by blast
qed

theorem parent_status_precedence_witness:
  "family ! 0 \<in> set family \<and> status (family ! 0) = Queued \<and>
   children_of family (family ! 0) \<noteq> [] \<and>
   parent_status (family ! 0) (count_status (children_of family (family ! 0))) = InProgress"
proof -
  have mem: "family ! 0 \<in> set family"
    by (simp add: family_def)
  have st: "status (family ! 0) = Queued \<or> status (family ! 0) = InProgress"
    by (simp add: family_def task0_def)
  have ch: "children_of family (family ! 0) \<noteq> []"
    by (simp add: family_def task0_def children_of_def)
  have img: "status ` set (children_of family (family ! 0)) = {Success, InProgress}"
    by (simp add: family_def task0_def children_of_def)
  have entry: "(family ! 0, min_opt (map started (children_of family (family ! 0))),
                max_opt (map finished (children_of family (family ! 0))),
                count_status (children_of family (family ! 0)))
               \<in> set (parent_tasks_stats family)"
    using mem st ch by (simp add: parent_tasks_stats_def image_iff)
  from parent_status_precedence [OF mem st ch] entry img
  have "parent_status (family ! 0) (count_status (children_of family (family ! 0))) = InProgress"
    by blast
  then show ?thesis
    using mem ch by (simp add: family_def task0_def)
qed

section \<open>Supporting lemmas\<close>

subsection \<open>Dispatch and new rows\<close>

lemma same_frame_refl: "same_frame cs cs"
  by (simp add: same_frame_def)

lemma same_frame_trans: "same_frame a b \<Longrightarrow> same_frame b c \<Longrightarrow> same_frame a c"
  by (simp add: same_frame_def)

lemma readonly_refl: "readonly s s"
  by (simp add: readonly_def)

lemma readonly_trans: "readonly a b \<Longrightarrow> readonly b c \<Longrightarrow> readonly a c"
  by (simp add: readonly_def)

lemma same_frame_update:
  assumes "c_name c' = c_name (cs ! k)" "c_ip c' = c_ip (cs ! k)" "c_ports c' = c_ports (cs ! k)"
    "length (c_gpu c') = length (c_gpu (cs ! k))"
  shows "same_frame cs (cs[k := c'])"
proof (cases "k < length cs")
  case True
  then show ?thesis using assms by (auto simp: same_frame_def nth_list_update)
next
  case False
  then have "cs[k := c'] = cs" by (simp add: list_update_beyond)
  then show ?thesis by (simp add: same_frame_def)
qed


lemma list_set_length: "list_set xs i v = Inr ys \<Longrightarrow> length ys = length xs"
  by (auto simp: list_set_def split: option.splits)

lemma list_set_ok: "0 \<le> i \<Longrightarrow> i < int (length xs) \<Longrightarrow> \<exists>ys. list_set xs i v = Inr ys"
  by (simp add: list_set_def subscript_def)

lemma process_to_celery_celery:
  "process_to_celery task queue k s = (e, s') \<Longrightarrow> celery s' = celery s @ [(id_of task, queue)]"
  by (auto simp: process_to_celery_def Let_def split: option.splits sum.splits)

lemma process_to_celery_readonly:
  "process_to_celery task queue k s = (e, s') \<Longrightarrow> readonly s s'"
  by (auto simp: process_to_celery_def Let_def readonly_def split: option.splits sum.splits)

lemma process_to_celery_computers:
  "process_to_celery task queue k s = (e, s') \<Longrightarrow> same_frame (computers s) (computers s')"
  by (auto simp: process_to_celery_def Let_def same_frame_refl list_set_length
      intro!: same_frame_update split: option.splits sum.splits)

lemma process_to_celery_provider:
  "process_to_celery task queue k s = (e, s') \<Longrightarrow>
     provider s' = (if e = None
        then update (task\<lparr>status := Queued, computer_assigned := Some (c_name (computers s ! k)),
                          celery_id := Some (length (celery s))\<rparr>) (provider s)
        else provider s)"
  by (auto simp: process_to_celery_def Let_def split: option.splits sum.splits)

lemma process_to_celery_ok:
  assumes "gpu_assigned task = Some g" "0 \<le> g" "g < int (length (c_gpu (computers s ! k)))"
  shows "fst (process_to_celery task queue k s) = None"
  using assms list_set_ok[of g "c_gpu (computers s ! k)" "id_of task"]
  by (auto simp: process_to_celery_def Let_def split: option.splits sum.splits)

lemma fold_max_ge: "(a::int) \<le> fold max xs a"
  by (induction xs arbitrary: a) (auto intro: order_trans[OF max.cobounded2])

lemma fold_max_mem: "(x::int) \<in> set xs \<Longrightarrow> x \<le> fold max xs a"
proof (induction xs arbitrary: a)
  case Nil then show ?case by simp
next
  case (Cons y ys)
  show ?case
  proof (cases "x = y")
    case True
    have "y \<le> max y a" by simp
    also have "\<dots> \<le> fold max ys (max y a)" by (rule fold_max_ge)
    finally show ?thesis using True by simp
  next
    case False
    with Cons show ?thesis by simp
  qed
qed

lemma fresh_id_gt: "r \<in> set table \<Longrightarrow> id_of r < fresh_id table"
  using fold_max_mem[of "id_of r" "map id_of table" 0] by (simp add: fresh_id_def)

lemma fresh_id_notin: "fresh_id table \<notin> id_of ` set table"
  using fresh_id_gt by fastforce

lemma update_fresh: "id_of t \<notin> id_of ` set table \<Longrightarrow> update t table = table"
  by (induction table) (auto simp: update_def)

lemma update_append: "update t (xs @ ys) = update t xs @ update t ys"
  by (simp add: update_def)

lemma update_nth:
  "i < length table \<Longrightarrow>
     update t table ! i = (if id_of (table ! i) = id_of t then t else table ! i)"
  by (simp add: update_def)

lemma update_length: "length (update t table) = length table"
  by (simp add: update_def)

lemma update_new_rows:
  assumes "t \<in> set table" "\<forall>r \<in> set rows. \<forall>x \<in> set table. id_of x < id_of r"
  shows "update (t\<lparr>status := st\<rparr>) (table @ rows) = update (t\<lparr>status := st\<rparr>) table @ rows"
proof -
  have "id_of (t\<lparr>status := st\<rparr>) \<notin> id_of ` set rows"
    using assms by fastforce
  then show ?thesis by (simp add: update_append update_fresh)
qed

lemma create_service_task_facts:
  assumes "create_service_task task ga (Some info) s = (row, s')"
  shows "provider s' = provider s @ [row]" "id_of row = fresh_id (provider s)"
    "celery s' = celery s" "computers s' = computers s" "readonly s s'"
    "type row = Service" "parent row = Some (id_of task)" "gpu_assigned row = ga"
    "distr_info row = Some info" "status row = NotRan"
  using assms by (auto simp: create_service_task_def add_def Let_def readonly_def)

subsection \<open>The loop over \<open>to_send\<close>\<close>

lemma index_ok: "v \<in> set xs \<Longrightarrow> \<exists>i. index xs v = Inr i"
  by (induction xs) auto

lemma rank_row_frame:
  "same_frame cs cs' \<Longrightarrow> rank_row cs' task k0 port rnk e r = rank_row cs task k0 port rnk e r"
  by (simp add: rank_row_def same_frame_def split: prod.splits)

lemma rank_rows_frame:
  "same_frame cs cs' \<Longrightarrow> rank_rows cs' task k0 port rnk es rs = rank_rows cs task k0 port rnk es rs"
  by (induction cs task k0 port rnk es rs rule: rank_rows.induct) (simp_all add: rank_row_frame)

lemma sendable_frame: "same_frame cs cs' \<Longrightarrow> sendable cs' taken ts = sendable cs taken ts"
  by (simp add: sendable_def same_frame_def)

lemma sendable_Nil: "sendable cs tk []"
  by (simp add: sendable_def)

lemma send_step:
  assumes g: "g \<in> set (taken (c_name (computers s ! k)))" "0 \<le> g"
    "g < int (length (c_gpu (computers s ! k)))"
  shows "\<exists>lr row s2. index (taken (c_name (computers s ! k))) g = Inr lr \<and>
     process_to_celery
       (fst (create_service_task task (Some g) (Some \<lparr>master_addr = ip, rank = rnk, local_rank = lr,
             master_port = port, world_size = gpu task\<rparr>) s)) queue k
       (snd (create_service_task task (Some g) (Some \<lparr>master_addr = ip, rank = rnk, local_rank = lr,
             master_port = port, world_size = gpu task\<rparr>) s)) = (None, s2) \<and>
     provider s2 = provider s @ [row] \<and> id_of row = fresh_id (provider s) \<and>
     celery s2 = celery s @ [(id_of row, queue)] \<and>
     same_frame (computers s) (computers s2) \<and> readonly s s2 \<and>
     type row = Service \<and> parent row = Some (id_of task) \<and> status row = Queued \<and>
     gpu_assigned row = Some g \<and> computer_assigned row = Some (c_name (computers s ! k)) \<and>
     distr_info row = Some \<lparr>master_addr = ip, rank = rnk, local_rank = lr,
             master_port = port, world_size = gpu task\<rparr>"
proof -
  from index_ok[OF g(1)] obtain lr where lr: "index (taken (c_name (computers s ! k))) g = Inr lr"
    by blast
  let ?info = "\<lparr>master_addr = ip, rank = rnk, local_rank = lr,
             master_port = port, world_size = gpu task\<rparr>"
  obtain row0 s1 where c: "create_service_task task (Some g) (Some ?info) s = (row0, s1)"
    by (cases "create_service_task task (Some g) (Some ?info) s")
  note f = create_service_task_facts[OF c]
  obtain e s2 where p: "process_to_celery row0 queue k s1 = (e, s2)"
    by (cases "process_to_celery row0 queue k s1")
  have "fst (process_to_celery row0 queue k s1) = None"
    using process_to_celery_ok[of row0 g s1 k queue] f g by simp
  with p have e: "e = None" by simp
  define row where "row = row0\<lparr>status := Queued, computer_assigned := Some (c_name (computers s1 ! k)),
                          celery_id := Some (length (celery s1))\<rparr>"
  have "provider s2 = update row (provider s @ [row0])"
    using process_to_celery_provider[OF p] e f by (simp add: row_def)
  also have "\<dots> = provider s @ [row]"
    using fresh_id_notin[of "provider s"] f(2)
    by (simp add: update_append update_fresh row_def) (simp add: update_def)
  finally have prov: "provider s2 = provider s @ [row]" .
  have "same_frame (computers s) (computers s2)"
    using process_to_celery_computers[OF p] f(4) by simp
  moreover have "readonly s s2"
    using process_to_celery_readonly[OF p] f(5) by (rule readonly_trans[rotated])
  moreover have "celery s2 = celery s @ [(id_of row, queue)]"
    using process_to_celery_celery[OF p] f(3) by (simp add: row_def)
  ultimately show ?thesis
    using lr c p e prov f
    by (intro exI[of _ lr] exI[of _ row] exI[of _ s2]) (simp add: row_def)
qed

lemma send_ok:
  assumes "sendable (computers s) taken ts"
  shows "\<exists>s' rows news. send task taken k0 port ts rnk s = (None, s') \<and>
           provider s' = provider s @ rows \<and>
           rank_rows (computers s) task k0 port rnk ts rows \<and>
           same_frame (computers s) (computers s') \<and> readonly s s' \<and>
           celery s' = celery s @ news \<and> fst ` set news \<subseteq> id_of ` set rows \<and>
           (\<forall>r \<in> set rows. \<forall>x \<in> set (provider s). id_of x < id_of r)"
  using assms
proof (induction ts arbitrary: rnk s)
  case Nil
  show ?case
    by (rule exI[of _ s], rule exI[of _ "[]"], rule exI[of _ "[]"])
       (simp add: same_frame_refl readonly_refl)
next
  case (Cons e ts)
  obtain k q g where e: "e = (k, q, g)" by (cases e)
  let ?ip = "if c_name (computers s ! k) = c_name (computers s ! k0) then ''localhost''
             else c_ip (computers s ! k0)"
  from Cons.prems e have g: "g \<in> set (taken (c_name (computers s ! k)))" "0 \<le> g"
    "g < int (length (c_gpu (computers s ! k)))" and rest: "sendable (computers s) taken ts"
    by (auto simp: sendable_def)
  from send_step[where g=g and taken=taken and s=s and k=k and task=task and ip="?ip"
        and rnk=rnk and port=port and queue=q, OF g]
  obtain lr row s2 where lr: "index (taken (c_name (computers s ! k))) g = Inr lr"
    and step: "process_to_celery
       (fst (create_service_task task (Some g) (Some \<lparr>master_addr = ?ip, rank = rnk, local_rank = lr,
             master_port = port, world_size = gpu task\<rparr>) s)) q k
       (snd (create_service_task task (Some g) (Some \<lparr>master_addr = ?ip, rank = rnk, local_rank = lr,
             master_port = port, world_size = gpu task\<rparr>) s)) = (None, s2)"
    and prov: "provider s2 = provider s @ [row]" and rid: "id_of row = fresh_id (provider s)"
    and cel: "celery s2 = celery s @ [(id_of row, q)]"
    and fr: "same_frame (computers s) (computers s2)" and ro: "readonly s s2"
    and row: "type row = Service" "parent row = Some (id_of task)" "status row = Queued"
      "gpu_assigned row = Some g" "computer_assigned row = Some (c_name (computers s ! k))"
      "distr_info row = Some \<lparr>master_addr = ?ip, rank = rnk, local_rank = lr,
             master_port = port, world_size = gpu task\<rparr>"
    by blast
  have "sendable (computers s2) taken ts"
    using rest sendable_frame[OF fr] by simp
  from Cons.IH[OF this, of "rnk + 1"]
  obtain s' rows news where ih: "send task taken k0 port ts (rnk + 1) s2 = (None, s')"
    "provider s' = provider s2 @ rows" "rank_rows (computers s2) task k0 port (rnk + 1) ts rows"
    "same_frame (computers s2) (computers s')" "readonly s2 s'"
    "celery s' = celery s2 @ news" "fst ` set news \<subseteq> id_of ` set rows"
    "\<forall>r \<in> set rows. \<forall>x \<in> set (provider s2). id_of x < id_of r"
    by blast
  have 1: "send task taken k0 port (e # ts) rnk s = (None, s')"
    by (simp add: e Let_def case_prod_beta lr step ih(1) split del: if_split)
  have 2: "provider s' = provider s @ (row # rows)"
    using ih(2) prov by simp
  have 3: "rank_rows (computers s) task k0 port rnk (e # ts) (row # rows)"
    using ih(3) rank_rows_frame[OF fr] row by (auto simp: e rank_row_def)
  have 4: "same_frame (computers s) (computers s')"
    using fr ih(4) by (rule same_frame_trans)
  have 5: "readonly s s'"
    using ro ih(5) by (rule readonly_trans)
  have 6: "celery s' = celery s @ ((id_of row, q) # news)"
    using ih(6) cel by simp
  have 7: "fst ` set ((id_of row, q) # news) \<subseteq> id_of ` set (row # rows)"
    using ih(7) by auto
  have 8: "\<forall>r \<in> set (row # rows). \<forall>x \<in> set (provider s). id_of x < id_of r"
    using ih(8) prov rid fresh_id_gt[of _ "provider s"] by auto
  show ?case
    using 1 2 3 4 5 6 7 8 by blast
qed

lemma rank_rows_length: "rank_rows cs task k0 port rnk ts rows \<Longrightarrow> length rows = length ts"
  by (induction cs task k0 port rnk ts rows rule: rank_rows.induct) simp_all

lemma rank_rows_ranks:
  "rank_rows cs task k0 port rnk ts rows \<Longrightarrow>
     map (\<lambda>r. map_option rank (distr_info r)) rows = map (\<lambda>i. Some (rnk + int i)) [0..<length ts]"
proof (induction cs task k0 port rnk ts rows rule: rank_rows.induct)
  case (1 cs task k0 port rnk)
  then show ?case by simp
next
  case (2 cs task k0 port rnk e es r rs)
  then have hd: "map_option rank (distr_info r) = Some rnk"
    and tl: "map (\<lambda>r. map_option rank (distr_info r)) rs =
             map (\<lambda>i. Some (rnk + 1 + int i)) [0..<length es]"
    by (auto simp: rank_row_def split: prod.splits)
  have "[0..<length (e # es)] = 0 # map Suc [0..<length es]"
    by (simp add: upt_conv_Cons map_Suc_upt del: upt_Suc)
  then show ?case using hd tl by (simp add: o_def add.assoc del: upt_Suc)
qed simp_all

lemma rank_rows_mem:
  "rank_rows cs task k0 port rnk ts rows \<Longrightarrow> r \<in> set rows \<Longrightarrow>
     \<exists>e j. e \<in> set ts \<and> rank_row cs task k0 port j e r"
  by (induction cs task k0 port rnk ts rows rule: rank_rows.induct) auto

lemma rank_rows_hd:
  "rank_rows cs task k0 port rnk (e # ts) rows \<Longrightarrow>
     \<exists>r rs. rows = r # rs \<and> rank_row cs task k0 port rnk e r"
  by (cases rows) simp_all

subsection \<open>Collecting GPU slots\<close>

lemma take_gpus_sendable:
  assumes "sendable cs (snd acc) (fst acc)" "nm = c_name (cs ! k)" "0 \<le> idx"
    "idx + int (length gs) \<le> int (length (c_gpu (cs ! k)))"
  shows "sendable cs (snd (take_gpus task k queue nm gs idx acc))
           (fst (take_gpus task k queue nm gs idx acc))"
  using assms
proof (induction gs arbitrary: idx acc)
  case Nil
  then show ?case by simp
next
  case (Cons g gs)
  obtain ts tk where acc: "acc = (ts, tk)" by (cases acc)
  show ?case
  proof (cases "g \<noteq> 0")
    case True
    then show ?thesis using Cons.IH[of acc idx] Cons.prems by (simp add: acc)
  next
    case False
    let ?acc = "(ts @ [(k, queue, idx)], tk(nm := tk nm @ [idx]))"
    have old: "g' \<in> set (tk (c_name (cs ! k'))) \<and> 0 \<le> g' \<and> g' < int (length (c_gpu (cs ! k')))"
      if "(k', q', g') \<in> set ts" for k' q' g'
      using Cons.prems(1) that by (auto simp: sendable_def acc)
    have s: "sendable cs (snd ?acc) (fst ?acc)"
      unfolding sendable_def
    proof (clarify)
      fix k' q' g'
      assume "(k', q', g') \<in> set (fst ?acc)"
      then consider "(k', q', g') \<in> set ts" | "k' = k" "g' = idx" by auto
      then show "g' \<in> set (snd ?acc (c_name (cs ! k'))) \<and> 0 \<le> g' \<and>
                 g' < int (length (c_gpu (cs ! k')))"
      proof cases
        case 1
        from old[OF 1] show ?thesis by auto
      next
        case 2
        then show ?thesis using Cons.prems by simp
      qed
    qed
    have rec: "sendable cs (snd (take_gpus task k queue nm gs (idx + 1) ?acc))
           (fst (take_gpus task k queue nm gs (idx + 1) ?acc))"
    proof (rule Cons.IH[OF s])
      show "nm = c_name (cs ! k)" by (rule Cons.prems(2))
      show "0 \<le> idx + 1" using Cons.prems(3) by simp
      show "idx + 1 + int (length gs) \<le> int (length (c_gpu (cs ! k)))"
        using Cons.prems(4) by simp
    qed
    have eq: "take_gpus task k queue nm (g # gs) idx acc =
                (if int (length (fst ?acc)) \<ge> gpu task then ?acc
                 else take_gpus task k queue nm gs (idx + 1) ?acc)"
      using False by (simp add: acc Let_def)
    show ?thesis
    proof (cases "int (length (fst ?acc)) \<ge> gpu task")
      case True
      then show ?thesis unfolding eq using s by (simp only: if_True)
    next
      case F: False
      then show ?thesis unfolding eq using rec by (simp only: if_False)
    qed
  qed
qed

lemma take_gpus_length:
  assumes "0 < gpu task" "length (fst acc) < nat (gpu task)"
  shows "length (fst (take_gpus task k queue nm gs idx acc)) =
           min (nat (gpu task)) (length (fst acc) + length (filter (\<lambda>g. g = 0) gs))"
  using assms
proof (induction gs arbitrary: idx acc)
  case Nil
  then show ?case by simp
next
  case (Cons g gs)
  obtain ts tk where acc: "acc = (ts, tk)" by (cases acc)
  show ?case
  proof (cases "g \<noteq> 0")
    case True
    then show ?thesis using Cons.IH[of acc idx] Cons.prems by (simp add: acc)
  next
    case False
    let ?acc = "(ts @ [(k, queue, idx)], tk(nm := tk nm @ [idx]))"
    show ?thesis
    proof (cases "int (length (fst ?acc)) \<ge> gpu task")
      case True
      then show ?thesis using False Cons.prems by (simp add: acc Let_def)
    next
      case F: False
      then have "length (fst ?acc) < nat (gpu task)" by simp
      from Cons.IH[OF Cons.prems(1) this, of "idx + 1"] F False
      show ?thesis by (simp add: acc Let_def)
    qed
  qed
qed

lemma take_gpus_prefix:
  "\<exists>new. fst (take_gpus task k queue nm gs idx acc) = fst acc @ new \<and>
         ((\<exists>g \<in> set gs. g = 0) \<longrightarrow> (\<exists>rest. new = (k, queue, idx) # rest))"
proof (induction gs arbitrary: idx acc)
  case Nil
  then show ?case by simp
next
  case (Cons g gs)
  obtain ts tk where acc: "acc = (ts, tk)" by (cases acc)
  show ?case
  proof (cases "g \<noteq> 0")
    case True
    then show ?thesis using Cons.IH[of idx acc] by (simp add: acc)
  next
    case False
    let ?acc = "(ts @ [(k, queue, idx)], tk(nm := tk nm @ [idx]))"
    from Cons.IH[of "idx + 1" ?acc] obtain new where
      "fst (take_gpus task k queue nm gs (idx + 1) ?acc) = fst ?acc @ new" by blast
    then show ?thesis using False by (simp add: acc Let_def)
  qed
qed

lemma collect_sendable:
  assumes "collect s task ks acc = Inr r" "sendable (computers s) (snd acc) (fst acc)"
  shows "sendable (computers s) (snd r) (fst r)"
  using assms
proof (induction ks arbitrary: acc)
  case Nil
  then show ?case by simp
next
  case (Cons k ks)
  from Cons.prems(1) obtain queue where q: "queue_of (computers s ! k) task = Inr queue"
    by (auto simp: Let_def split: sum.splits)
  let ?acc = "take_gpus task k queue (c_name (computers s ! k)) (c_gpu (computers s ! k)) 0 acc"
  have a: "sendable (computers s) (snd ?acc) (fst ?acc)"
    by (rule take_gpus_sendable[OF Cons.prems(2)]) simp_all
  show ?case
  proof (cases "int (length (fst ?acc)) \<ge> gpu task")
    case True
    with Cons.prems(1) q have "r = ?acc" by (simp add: Let_def)
    with a show ?thesis by simp
  next
    case False
    with Cons.prems(1) q have "collect s task ks ?acc = Inr r" by (simp add: Let_def)
    from Cons.IH[OF this a] show ?thesis .
  qed
qed

lemma collect_length:
  assumes "collect s task ks acc = Inr r" "0 < gpu task" "length (fst acc) < nat (gpu task)"
  shows "length (fst r) = min (nat (gpu task)) (length (fst acc) + free_gpu s ks)"
  using assms
proof (induction ks arbitrary: acc)
  case Nil
  then show ?case by (simp add: free_gpu_def)
next
  case (Cons k ks)
  from Cons.prems(1) obtain queue where q: "queue_of (computers s ! k) task = Inr queue"
    by (auto simp: Let_def split: sum.splits)
  let ?acc = "take_gpus task k queue (c_name (computers s ! k)) (c_gpu (computers s ! k)) 0 acc"
  have len: "length (fst ?acc) =
      min (nat (gpu task)) (length (fst acc) + free_slots (computers s ! k))"
    using take_gpus_length[OF Cons.prems(2,3)] by (simp add: free_slots_def)
  show ?case
  proof (cases "int (length (fst ?acc)) \<ge> gpu task")
    case True
    with Cons.prems(1) q have "r = ?acc" by (simp add: Let_def)
    with len True show ?thesis by (simp add: free_gpu_def)
  next
    case False
    with Cons.prems(1) q have c: "collect s task ks ?acc = Inr r" by (simp add: Let_def)
    from False have lt: "length (fst ?acc) < nat (gpu task)" by simp
    from Cons.IH[OF c Cons.prems(2) lt] len lt show ?thesis by (simp add: free_gpu_def)
  qed
qed

lemma collect_prefix:
  assumes "collect s task ks acc = Inr r"
  shows "\<exists>new. fst r = fst acc @ new"
  using assms
proof (induction ks arbitrary: acc)
  case Nil
  then show ?case by simp
next
  case (Cons k ks)
  from Cons.prems(1) obtain queue where q: "queue_of (computers s ! k) task = Inr queue"
    by (auto simp: Let_def split: sum.splits)
  let ?acc = "take_gpus task k queue (c_name (computers s ! k)) (c_gpu (computers s ! k)) 0 acc"
  from take_gpus_prefix[of task k queue "c_name (computers s ! k)" "c_gpu (computers s ! k)" 0 acc]
  obtain new where n: "fst ?acc = fst acc @ new" by blast
  show ?case
  proof (cases "int (length (fst ?acc)) \<ge> gpu task")
    case True
    with Cons.prems(1) q have "r = ?acc" by (simp add: Let_def)
    with n show ?thesis by simp
  next
    case False
    with Cons.prems(1) q have c: "collect s task ks ?acc = Inr r" by (simp add: Let_def)
    from Cons.IH[OF c] n show ?thesis by auto
  qed
qed

lemma collect_head:
  assumes "collect s task (k # ks) ([], tk) = Inr r" "0 < free_slots (computers s ! k)"
  shows "\<exists>queue rest. queue_of (computers s ! k) task = Inr queue \<and> fst r = (k, queue, 0) # rest"
proof -
  from assms(1) obtain queue where q: "queue_of (computers s ! k) task = Inr queue"
    by (auto simp: Let_def split: sum.splits)
  let ?acc = "take_gpus task k queue (c_name (computers s ! k)) (c_gpu (computers s ! k)) 0 ([], tk)"
  have "\<exists>g \<in> set (c_gpu (computers s ! k)). g = 0"
    using assms(2) by (auto simp: free_slots_def filter_empty_conv)
  with take_gpus_prefix[of task k queue "c_name (computers s ! k)" "c_gpu (computers s ! k)" 0 "([], tk)"]
  obtain rest where n: "fst ?acc = (k, queue, 0) # rest" by auto
  show ?thesis
  proof (cases "int (length (fst ?acc)) \<ge> gpu task")
    case True
    with assms(1) q have "r = ?acc" by (simp add: Let_def)
    with n q show ?thesis by simp
  next
    case False
    with assms(1) q have c: "collect s task ks ?acc = Inr r" by (simp add: Let_def)
    from collect_prefix[OF c] n q show ?thesis by auto
  qed
qed

lemma collect_ok:
  assumes "dag_rel task = Some d"
  shows "\<exists>r. collect s task ks acc = Inr r"
proof (induction ks arbitrary: acc)
  case Nil
  then show ?case by simp
next
  case (Cons k ks)
  from assms obtain queue where q: "queue_of (computers s ! k) task = Inr queue"
    by (simp add: queue_of_def)
  then show ?case using Cons.IH by (simp add: Let_def)
qed

subsection \<open>Candidate computers\<close>

lemma candidates_filter:
  "candidates s task ks = Inr cs \<Longrightarrow>
     cs = filter (\<lambda>k. valid_computer s task (computers s ! k) = Inr None) ks"
  by (induction ks arbitrary: cs) (auto split: sum.splits)

lemma candidates_bound:
  assumes "candidates s task [0..<n] = Inr cands" "k \<in> set cands"
  shows "k < n"
  using candidates_filter[OF assms(1)] assms(2) by auto

lemma valid_computer_ok:
  "dag_rel task = Some d \<Longrightarrow> \<exists>r. valid_computer s task c = Inr r"
  by (simp add: valid_computer_def queue_of_def)

lemma candidates_ok:
  assumes "dag_rel task = Some d"
  shows "\<exists>cs. candidates s task ks = Inr cs"
proof (induction ks)
  case Nil
  then show ?case by simp
next
  case (Cons k ks)
  from valid_computer_ok[OF assms] obtain r where
    "valid_computer s task (computers s ! k) = Inr r" by blast
  then show ?case using Cons.IH by auto
qed

lemma valid_computer_free:
  "valid_computer s task c = Inr None \<Longrightarrow> 0 < gpu task \<Longrightarrow> 0 < free_slots c"
  by (auto simp: valid_computer_def free_slots_def filter_empty_conv split: if_splits sum.splits)

lemma free_gpu_filter: "free_gpu s (filter P ks) \<le> free_gpu s ks"
  by (induction ks) (simp_all add: free_gpu_def)

subsection \<open>Placement of a multi-GPU task\<close>

lemma process_task_gpu:
  assumes d: "dag_rel task = Some d" and g: "0 < gpu task"
  shows "\<exists>cands. candidates s task [0..<length (computers s)] = Inr cands \<and>
     (if gpu task > int (free_gpu s cands) then process_task task s = (None, s)
      else \<exists>k0 q0 rest taken.
        cands \<noteq> [] \<and> k0 = hd cands \<and> queue_of (computers s ! k0) task = Inr q0 \<and>
        collect s task cands ([], \<lambda>_. []) = Inr ((k0, q0, 0) # rest, taken) \<and>
        Suc (length rest) = nat (gpu task) \<and>
        (case find_master_port s k0 q0 of
           Inl e \<Rightarrow> process_task task s = (Some e, s)
         | Inr port \<Rightarrow>
             \<exists>s1 rows news. process_task task s =
                 (None, s1\<lparr>provider := update (task\<lparr>status := Queued\<rparr>) (provider s @ rows)\<rparr>) \<and>
               provider s1 = provider s @ rows \<and>
               rank_rows (computers s) task k0 port 0 ((k0, q0, 0) # rest) rows \<and>
               same_frame (computers s) (computers s1) \<and> readonly s s1 \<and>
               celery s1 = celery s @ news \<and> fst ` set news \<subseteq> id_of ` set rows \<and>
               (\<forall>r \<in> set rows. \<forall>x \<in> set (provider s). id_of x < id_of r)))"
proof -
  from candidates_ok[OF d] obtain cands where
    c: "candidates s task [0..<length (computers s)] = Inr cands" by blast
  show ?thesis
  proof (cases "gpu task > int (free_gpu s cands)")
    case True
    then show ?thesis using c by (simp add: process_task_def)
  next
    case False
    with g have "0 < free_gpu s cands" by simp
    then obtain k0 ks where cands: "cands = k0 # ks"
      by (cases cands) (simp_all add: free_gpu_def)
    have "k0 \<in> set cands" by (simp add: cands)
    with candidates_filter[OF c] have "valid_computer s task (computers s ! k0) = Inr None"
      by auto
    from valid_computer_free[OF this g] have free0: "0 < free_slots (computers s ! k0)" .
    from collect_ok[OF d] obtain r where r: "collect s task cands ([], \<lambda>_. []) = Inr r"
      by blast
    from collect_head[OF r[unfolded cands] free0] obtain q0 rest where
      q0: "queue_of (computers s ! k0) task = Inr q0" and hd: "fst r = (k0, q0, 0) # rest"
      by blast
    obtain taken where rr: "r = ((k0, q0, 0) # rest, taken)"
      using hd by (cases r) simp
    have len: "Suc (length rest) = nat (gpu task)"
      using collect_length[OF r g] False g by (simp add: rr)
    have sd: "sendable (computers s) taken ((k0, q0, 0) # rest)"
      using collect_sendable[OF r] by (simp add: sendable_Nil rr)
    have main: "case find_master_port s k0 q0 of
           Inl e \<Rightarrow> process_task task s = (Some e, s)
         | Inr port \<Rightarrow>
             \<exists>s1 rows news. process_task task s =
                 (None, s1\<lparr>provider := update (task\<lparr>status := Queued\<rparr>) (provider s @ rows)\<rparr>) \<and>
               provider s1 = provider s @ rows \<and>
               rank_rows (computers s) task k0 port 0 ((k0, q0, 0) # rest) rows \<and>
               same_frame (computers s) (computers s1) \<and> readonly s s1 \<and>
               celery s1 = celery s @ news \<and> fst ` set news \<subseteq> id_of ` set rows \<and>
               (\<forall>r \<in> set rows. \<forall>x \<in> set (provider s). id_of x < id_of r)"
    proof (cases "find_master_port s k0 q0")
      case (Inl e)
      then show ?thesis using c False g r rr by (simp add: process_task_def)
    next
      case (Inr port)
      from send_ok[OF sd, of task k0 port 0] obtain s1 rows news where
        sn: "send task taken k0 port ((k0, q0, 0) # rest) 0 s = (None, s1)"
        and rest: "provider s1 = provider s @ rows"
          "rank_rows (computers s) task k0 port 0 ((k0, q0, 0) # rest) rows"
          "same_frame (computers s) (computers s1)" "readonly s s1"
          "celery s1 = celery s @ news" "fst ` set news \<subseteq> id_of ` set rows"
          "\<forall>r \<in> set rows. \<forall>x \<in> set (provider s). id_of x < id_of r"
        by blast
      have "process_task task s =
          (None, s1\<lparr>provider := update (task\<lparr>status := Queued\<rparr>) (provider s @ rows)\<rparr>)"
        using c False g r rr Inr sn rest(1) by (simp add: process_task_def)
      with rest show ?thesis unfolding Inr by auto
    qed
    show ?thesis
      using c False cands q0 r rr len main by auto
  qed
qed

lemma process_task_placed:
  assumes "task \<in> set (provider s)" and "dag_rel task = Some d" and "0 < gpu task"
    and "process_task task s = (None, s')" and "s' \<noteq> s"
  shows "\<exists>k0 q0 rest port rows.
           k0 < length (computers s) \<and> queue_of (computers s ! k0) task = Inr q0 \<and>
           (\<exists>cands. candidates s task [0..<length (computers s)] = Inr cands \<and> k0 = hd cands \<and>
                     cands \<noteq> []) \<and>
           find_master_port s k0 q0 = Inr port \<and>
           provider s' = update (task\<lparr>status := Queued\<rparr>) (provider s) @ rows \<and>
           rank_rows (computers s) task k0 port 0 ((k0, q0, 0) # rest) rows \<and>
           same_frame (computers s) (computers s') \<and> readonly s s'"
proof -
  from process_task_gpu[OF assms(2,3), of s] obtain cands where
    c: "candidates s task [0..<length (computers s)] = Inr cands"
    and m: "if gpu task > int (free_gpu s cands) then process_task task s = (None, s)
      else \<exists>k0 q0 rest taken.
        cands \<noteq> [] \<and> k0 = hd cands \<and> queue_of (computers s ! k0) task = Inr q0 \<and>
        collect s task cands ([], \<lambda>_. []) = Inr ((k0, q0, 0) # rest, taken) \<and>
        Suc (length rest) = nat (gpu task) \<and>
        (case find_master_port s k0 q0 of
           Inl e \<Rightarrow> process_task task s = (Some e, s)
         | Inr port \<Rightarrow>
             \<exists>s1 rows news. process_task task s =
                 (None, s1\<lparr>provider := update (task\<lparr>status := Queued\<rparr>) (provider s @ rows)\<rparr>) \<and>
               provider s1 = provider s @ rows \<and>
               rank_rows (computers s) task k0 port 0 ((k0, q0, 0) # rest) rows \<and>
               same_frame (computers s) (computers s1) \<and> readonly s s1 \<and>
               celery s1 = celery s @ news \<and> fst ` set news \<subseteq> id_of ` set rows \<and>
               (\<forall>r \<in> set rows. \<forall>x \<in> set (provider s). id_of x < id_of r))"
    by blast
  have "\<not> gpu task > int (free_gpu s cands)"
    using m assms(4,5) by auto
  with m obtain q0 rest where ne: "cands \<noteq> []"
    and q0: "queue_of (computers s ! hd cands) task = Inr q0"
    and cs: "case find_master_port s (hd cands) q0 of
           Inl e \<Rightarrow> process_task task s = (Some e, s)
         | Inr port \<Rightarrow>
             \<exists>s1 rows news. process_task task s =
                 (None, s1\<lparr>provider := update (task\<lparr>status := Queued\<rparr>) (provider s @ rows)\<rparr>) \<and>
               provider s1 = provider s @ rows \<and>
               rank_rows (computers s) task (hd cands) port 0 ((hd cands, q0, 0) # rest) rows \<and>
               same_frame (computers s) (computers s1) \<and> readonly s s1 \<and>
               celery s1 = celery s @ news \<and> fst ` set news \<subseteq> id_of ` set rows \<and>
               (\<forall>r \<in> set rows. \<forall>x \<in> set (provider s). id_of x < id_of r)"
    by auto
  from ne have "hd cands \<in> set cands" by simp
  from candidates_bound[OF c this] have k0: "hd cands < length (computers s)" .
  obtain port where port: "find_master_port s (hd cands) q0 = Inr port"
    using cs assms(4) by (cases "find_master_port s (hd cands) q0") auto
  with cs obtain s1 rows where
    p: "process_task task s =
          (None, s1\<lparr>provider := update (task\<lparr>status := Queued\<rparr>) (provider s @ rows)\<rparr>)"
    and rr: "rank_rows (computers s) task (hd cands) port 0 ((hd cands, q0, 0) # rest) rows"
    and fr: "same_frame (computers s) (computers s1)" "readonly s s1"
    and fresh: "\<forall>r \<in> set rows. \<forall>x \<in> set (provider s). id_of x < id_of r"
    by auto
  from p assms(4) have s': "s' = s1\<lparr>provider := update (task\<lparr>status := Queued\<rparr>) (provider s @ rows)\<rparr>"
    by simp
  have 1: "provider s' = update (task\<lparr>status := Queued\<rparr>) (provider s) @ rows"
    using update_new_rows[OF assms(1) fresh] by (simp add: s')
  have 2: "same_frame (computers s) (computers s')" "readonly s s'"
    using fr by (simp_all add: s' readonly_def)
  from k0 q0 c ne port 1 rr 2 show ?thesis by blast
qed



subsection \<open>What a step of the tick leaves alone\<close>

lemma rows_kept_refl: "rows_kept I xs xs"
  by (simp add: rows_kept_def)

lemma rows_kept_trans:
  assumes "rows_kept I a b" "rows_kept I' b c"
  shows "rows_kept (I \<union> I') a c"
  unfolding rows_kept_def
proof (intro conjI allI impI)
  show "length a \<le> length c" using assms by (simp add: rows_kept_def)
next
  fix i assume i: "i < length a"
  with assms(1) have 1: "i < length b" "id_of (b ! i) = id_of (a ! i)"
    "id_of (a ! i) \<notin> I \<longrightarrow> b ! i = a ! i"
    by (simp_all add: rows_kept_def)
  from assms(2) 1(1) have 2: "id_of (c ! i) = id_of (b ! i)"
    "id_of (b ! i) \<notin> I' \<longrightarrow> c ! i = b ! i"
    by (simp_all add: rows_kept_def)
  show "id_of (c ! i) = id_of (a ! i)" using 1 2 by simp
  assume "id_of (a ! i) \<notin> I \<union> I'"
  then show "c ! i = a ! i" using 1 2 by simp
qed

lemma rows_kept_mono: "rows_kept I a b \<Longrightarrow> I \<subseteq> I' \<Longrightarrow> rows_kept I' a b"
  unfolding rows_kept_def by blast

lemma rows_kept_ids:
  assumes "rows_kept I a b"
  shows "id_of ` set a \<subseteq> id_of ` set b"
proof
  fix x assume "x \<in> id_of ` set a"
  then obtain i where i: "i < length a" "x = id_of (a ! i)"
    by (auto simp: in_set_conv_nth)
  with assms have "id_of (b ! i) = x" "i < length b"
    by (simp_all add: rows_kept_def)
  then show "x \<in> id_of ` set b"
    by (metis imageI nth_mem)
qed

lemma sent_only_refl: "sent_only J s s"
  by (simp add: sent_only_def)

lemma sent_only_trans:
  assumes a: "sent_only J s s1" and b: "sent_only J' s1 s2"
    and ids: "id_of ` set (provider s) \<subseteq> id_of ` set (provider s1)"
  shows "sent_only (J \<union> J') s s2"
proof -
  from a obtain n1 where n1: "celery s1 = celery s @ n1"
    "\<forall>x \<in> fst ` set n1. x \<in> J \<or> x \<notin> id_of ` set (provider s)"
    unfolding sent_only_def by blast
  from b obtain n2 where n2: "celery s2 = celery s1 @ n2"
    "\<forall>x \<in> fst ` set n2. x \<in> J' \<or> x \<notin> id_of ` set (provider s1)"
    unfolding sent_only_def by blast
  have cel: "celery s2 = celery s @ (n1 @ n2)" using n1 n2 by simp
  have new: "\<forall>x \<in> fst ` set (n1 @ n2). x \<in> J \<union> J' \<or> x \<notin> id_of ` set (provider s)"
  proof
    fix x assume "x \<in> fst ` set (n1 @ n2)"
    then consider "x \<in> fst ` set n1" | "x \<in> fst ` set n2" by auto
    then show "x \<in> J \<union> J' \<or> x \<notin> id_of ` set (provider s)"
    proof cases
      case 1
      with n1(2) show ?thesis by blast
    next
      case 2
      with n2(2) have "x \<in> J' \<or> x \<notin> id_of ` set (provider s1)" by blast
      with ids show ?thesis by blast
    qed
  qed
  show ?thesis
    unfolding sent_only_def by (rule exI[of _ "n1 @ n2"]) (use cel new in simp)
qed

lemma sent_only_mono: "sent_only J s s' \<Longrightarrow> J \<subseteq> J' \<Longrightarrow> sent_only J' s s'"
  unfolding sent_only_def by blast

lemma untouched_refl: "untouched I J s s"
  by (simp add: untouched_def rows_kept_refl sent_only_refl readonly_refl same_frame_refl)

lemma untouched_trans:
  assumes a: "untouched I J s s1" and b: "untouched I' J' s1 s2"
  shows "untouched (I \<union> I') (J \<union> J') s s2"
  unfolding untouched_def
proof (intro conjI)
  show "rows_kept (I \<union> I') (provider s) (provider s2)"
    using a b by (auto simp: untouched_def intro: rows_kept_trans)
  have "rows_kept I (provider s) (provider s1)"
    using a by (simp add: untouched_def)
  from rows_kept_ids[OF this] show "sent_only (J \<union> J') s s2"
    using a b by (auto simp: untouched_def intro: sent_only_trans)
  show "readonly s s2"
    using a b by (auto simp: untouched_def intro: readonly_trans)
  show "same_frame (computers s) (computers s2)"
    using a b by (auto simp: untouched_def intro: same_frame_trans)
qed

lemma untouched_mono: "untouched I J s s' \<Longrightarrow> I \<subseteq> I' \<Longrightarrow> J \<subseteq> J' \<Longrightarrow> untouched I' J' s s'"
  by (auto simp: untouched_def intro: rows_kept_mono sent_only_mono)

lemma rows_kept_update: "rows_kept {id_of t} table (update t table)"
  by (simp add: rows_kept_def update_nth update_length)

lemma rows_kept_append: "rows_kept I a b \<Longrightarrow> rows_kept I a (b @ rows)"
  by (auto simp: rows_kept_def nth_append)

lemma sent_only_new:
  "celery s' = celery s @ news \<Longrightarrow> fst ` set news \<subseteq> J \<Longrightarrow> sent_only J s s'"
  unfolding sent_only_def by blast

lemma change_status_update:
  "\<exists>t. id_of t = id_of task \<and> status t = st \<and> dag_rel t = dag_rel task \<and>
       change_status task st s = s\<lparr>provider := update t (provider s)\<rparr>"
proof -
  let ?t = "(if st = InProgress then task\<lparr>started := Some (now s)\<rparr>
             else if st \<in> {Failed, Stopped, Success} then task\<lparr>finished := Some (now s)\<rparr>
             else task)\<lparr>status := st\<rparr>"
  have "change_status task st s = s\<lparr>provider := update ?t (provider s)\<rparr>"
    by (simp only: change_status_def Let_def)
  moreover have "id_of ?t = id_of task" "status ?t = st" "dag_rel ?t = dag_rel task"
    by simp_all
  ultimately show ?thesis by blast
qed

lemma change_status_untouched: "untouched {id_of task} {} s (change_status task st s)"
proof -
  from change_status_update[of task st s] obtain t where
    t: "id_of t = id_of task" "change_status task st s = s\<lparr>provider := update t (provider s)\<rparr>"
    by blast
  have "rows_kept {id_of task} (provider s) (update t (provider s))"
    using rows_kept_update[of t] t(1) by simp
  then show ?thesis
    by (simp add: t(2) untouched_def sent_only_refl[unfolded sent_only_def] sent_only_def
        readonly_def same_frame_refl)
qed


lemma process_to_celery_untouched:
  assumes "process_to_celery task queue k s = (e, s')"
  shows "untouched {id_of task} {id_of task} s s'"
  unfolding untouched_def
proof (intro conjI)
  let ?t = "task\<lparr>status := Queued, computer_assigned := Some (c_name (computers s ! k)),
                          celery_id := Some (length (celery s))\<rparr>"
  show "rows_kept {id_of task} (provider s) (provider s')"
    using process_to_celery_provider[OF assms] rows_kept_update[of ?t "provider s"]
    by (simp add: rows_kept_refl)
  show "sent_only {id_of task} s s'"
    by (rule sent_only_new[OF process_to_celery_celery[OF assms]]) simp
  show "readonly s s'" by (rule process_to_celery_readonly[OF assms])
  show "same_frame (computers s) (computers s')" by (rule process_to_celery_computers[OF assms])
qed

lemma process_task_untouched:
  assumes "process_task task s = (e, s')"
  shows "untouched {id_of task} {id_of task} s s'"
proof (cases "candidates s task [0..<length (computers s)]")
  case (Inl err)
  with assms have "s' = s" by (simp add: process_task_def)
  then show ?thesis by (simp add: untouched_refl)
next
  case (Inr cands)
  note c = Inr
  consider (short) "gpu task > int (free_gpu s cands)"
    | (multi) "\<not> gpu task > int (free_gpu s cands)" "gpu task > 0"
    | (single) "\<not> gpu task > int (free_gpu s cands)" "\<not> gpu task > 0"
    by blast
  then show ?thesis
  proof cases
    case short
    with assms c have "s' = s" by (simp add: process_task_def)
    then show ?thesis by (simp add: untouched_refl)
  next
    case single
    show ?thesis
    proof (cases cands)
      case Nil
      with assms c single have "s' = s" by (simp add: process_task_def)
      then show ?thesis by (simp add: untouched_refl)
    next
      case (Cons k ks)
      show ?thesis
      proof (cases "queue_of (computers s ! k) task")
        case (Inl err)
        with assms c single Cons have "s' = s" by (simp add: process_task_def)
        then show ?thesis by (simp add: untouched_refl)
      next
        case (Inr queue)
        with assms c single Cons have "process_to_celery task queue k s = (e, s')"
          by (simp add: process_task_def)
        then show ?thesis by (rule process_to_celery_untouched)
      qed
    qed
  next
    case multi
    show ?thesis
    proof (cases "collect s task cands ([], \<lambda>_. [])")
      case (Inl err)
      with assms c multi have "s' = s" by (simp add: process_task_def)
      then show ?thesis by (simp add: untouched_refl)
    next
      case (Inr r)
      obtain ts taken where r: "r = (ts, taken)" by (cases r)
      have sd: "sendable (computers s) taken ts"
        using collect_sendable[OF Inr] by (simp add: r sendable_Nil)
      show ?thesis
      proof (cases ts)
        case Nil
        with assms c multi Inr r have "s' = s" by (simp add: process_task_def)
        then show ?thesis by (simp add: untouched_refl)
      next
        case (Cons t0 rest)
        obtain k0 q0 g0 where t0: "t0 = (k0, q0, g0)" by (cases t0)
        show ?thesis
        proof (cases "find_master_port s k0 q0")
          case (Inl err)
          with assms c multi Inr r Cons t0 have "s' = s" by (simp add: process_task_def)
          then show ?thesis by (simp add: untouched_refl)
        next
          case port: (Inr port)
          from send_ok[OF sd, of task k0 port 0] obtain s1 rows news where
            sn: "send task taken k0 port ts 0 s = (None, s1)"
            and f: "provider s1 = provider s @ rows"
              "same_frame (computers s) (computers s1)" "readonly s s1"
              "celery s1 = celery s @ news" "fst ` set news \<subseteq> id_of ` set rows"
              "\<forall>r \<in> set rows. \<forall>x \<in> set (provider s). id_of x < id_of r"
            by blast
          let ?t = "task\<lparr>status := Queued\<rparr>"
          have s': "s' = s1\<lparr>provider := update ?t (provider s1)\<rparr>"
            using assms c multi Inr r Cons t0 port sn by (simp add: process_task_def)
          have 1: "rows_kept {id_of task} (provider s) (provider s')"
            using rows_kept_trans[OF rows_kept_append[OF rows_kept_refl[of "{}" "provider s"], of rows]
                rows_kept_update[of ?t "provider s @ rows"]]
            by (simp add: s' f(1))
          have "\<forall>x \<in> fst ` set news. x \<notin> id_of ` set (provider s)"
            using f(5,6) by fastforce
          then have 2: "sent_only {id_of task} s s'"
            unfolding sent_only_def using f(4) by (auto simp: s')
          have 3: "readonly s s'" using f(3) by (simp add: s' readonly_def)
          have 4: "same_frame (computers s) (computers s')" using f(2) by (simp add: s')
          show ?thesis unfolding untouched_def using 1 2 3 4 by blast
        qed
      qed
    qed
  qed
qed

lemma runnable_readonly: "readonly s s' \<Longrightarrow> runnable s' t = runnable s t"
  by (simp add: runnable_def readonly_def)

lemma loop_Cons:
  assumes "process_tasks_loop (t # ts) s = (e, s')"
  shows "\<exists>s1. untouched {id_of t} (if runnable s t then {id_of t} else {}) s s1 \<and>
              (process_tasks_loop ts s1 = (e, s') \<or> (e \<noteq> None \<and> s' = s1))"
proof (cases "dag_rel t")
  case None
  with assms have "process_tasks_loop ts s = (e, s')" by simp
  then show ?thesis using untouched_refl by blast
next
  case (Some d)
  show ?thesis
  proof (cases "dep_status s (id_of t)")
    case None
    with assms Some have "e \<noteq> None \<and> s' = s" by auto
    then show ?thesis using untouched_refl by blast
  next
    case deps: (Some deps)
    consider (skip) "Stopped \<in> deps \<or> Failed \<in> deps"
      | (blocked) "\<not> (Stopped \<in> deps \<or> Failed \<in> deps)" "deps \<noteq> {} \<and> deps \<noteq> {Success}"
      | (run) "\<not> (Stopped \<in> deps \<or> Failed \<in> deps)" "\<not> (deps \<noteq> {} \<and> deps \<noteq> {Success})"
      by blast
    then show ?thesis
    proof cases
      case skip
      with assms Some deps have "process_tasks_loop ts (change_status t Skipped s) = (e, s')"
        by simp
      moreover have "untouched {id_of t} (if runnable s t then {id_of t} else {}) s
          (change_status t Skipped s)"
        by (rule untouched_mono[OF change_status_untouched]) simp_all
      ultimately show ?thesis by blast
    next
      case blocked
      with assms Some deps have "process_tasks_loop ts s = (e, s')" by simp
      then show ?thesis using untouched_refl by blast
    next
      case run
      then have rn: "runnable s t" using Some deps by (auto simp: runnable_def)
      obtain e1 s1 where p: "process_task t s = (e1, s1)" by (cases "process_task t s")
      from process_task_untouched[OF p] rn
      have u: "untouched {id_of t} (if runnable s t then {id_of t} else {}) s s1" by simp
      show ?thesis
      proof (cases e1)
        case None
        with assms Some deps run p have "process_tasks_loop ts s1 = (e, s')" by simp
        with u show ?thesis by blast
      next
        case err: (Some err)
        with assms Some deps run p have "e \<noteq> None \<and> s' = s1" by auto
        with u show ?thesis by blast
      qed
    qed
  qed
qed

lemma loop_untouched:
  assumes "process_tasks_loop tasks s = (e, s')"
  shows "untouched (id_of ` set tasks) (id_of ` {t \<in> set tasks. runnable s t}) s s'"
  using assms
proof (induction tasks arbitrary: s)
  case Nil
  then show ?case by (simp add: untouched_refl)
next
  case (Cons t ts)
  from loop_Cons[OF Cons.prems] obtain s1 where
    u: "untouched {id_of t} (if runnable s t then {id_of t} else {}) s s1"
    and r: "process_tasks_loop ts s1 = (e, s') \<or> (e \<noteq> None \<and> s' = s1)" by blast
  from u have ro: "readonly s s1" by (simp add: untouched_def)
  from r show ?case
  proof
    assume "process_tasks_loop ts s1 = (e, s')"
    from Cons.IH[OF this]
    have "untouched (id_of ` set ts) (id_of ` {t \<in> set ts. runnable s t}) s1 s'"
      by (simp add: runnable_readonly[OF ro])
    from untouched_trans[OF u this] show ?thesis
      by (rule untouched_mono) auto
  next
    assume "e \<noteq> None \<and> s' = s1"
    then have "s' = s1" by simp
    show ?thesis
      unfolding \<open>s' = s1\<close> by (rule untouched_mono[OF u]) auto
  qed
qed


lemma loop_not_sent:
  assumes "process_tasks_loop tasks s = (e, s')" "distinct (map id_of tasks)"
    "x \<in> id_of ` set (provider s)" "\<forall>t \<in> set tasks. id_of t = x \<longrightarrow> \<not> runnable s t"
  shows "\<exists>news. celery s' = celery s @ news \<and> x \<notin> fst ` set news"
proof -
  from loop_untouched[OF assms(1)] obtain news where
    n: "celery s' = celery s @ news"
       "\<forall>y \<in> fst ` set news. y \<in> id_of ` {t \<in> set tasks. runnable s t} \<or>
                              y \<notin> id_of ` set (provider s)"
    unfolding untouched_def sent_only_def by blast
  have "x \<notin> fst ` set news"
  proof
    assume "x \<in> fst ` set news"
    with n(2) assms(3) have "x \<in> id_of ` {t \<in> set tasks. runnable s t}" by blast
    with assms(4) show False by blast
  qed
  with n(1) show ?thesis by blast
qed

subsection \<open>Loading\<close>

lemma dependency_status_loop_Inr:
  "dependency_status_loop items res = Inr r \<Longrightarrow> items = [] \<and> r = res"
  by (cases items) (auto simp: set_append_def split: option.splits)

lemma dependency_status_dom:
  assumes "dependency_status table deps tasks = Inr r"
  shows "dom r = id_of ` set tasks"
proof -
  from assms have "r = map_of (map (\<lambda>t. (id_of t, {})) tasks)"
    by (auto simp: dependency_status_def Let_def dest: dependency_status_loop_Inr)
  then show ?thesis by (simp add: dom_map_of_conv_image_fst image_image)
qed

lemma load_tasks_facts:
  assumes "load_tasks s = (e, s')"
  shows "provider s' = provider s" "celery s' = celery s"
    "not_ran_tasks s' = filter (\<lambda>task. \<not> debug task) (by_status [NotRan] (provider s))"
  using assms
  by (auto simp: load_tasks_def Let_def split: sum.splits)

lemma load_tasks_dep_status:
  assumes "load_tasks s = (None, s')"
  shows "dom (dep_status s') = id_of ` set (not_ran_tasks s')"
proof -
  let ?nr = "filter (\<lambda>task. \<not> debug task) (by_status [NotRan] (provider s))"
  from assms obtain r where r: "dependency_status (provider s) (task_dependence s) ?nr = Inr r"
    and s': "s' = s\<lparr>not_ran_tasks := ?nr, dep_status := r\<rparr>"
    by (auto simp: load_tasks_def Let_def split: sum.splits)
  from dependency_status_dom[OF r] show ?thesis by (simp add: s')
qed

lemma load_computers_facts:
  assumes "load_computers s = (e, s')"
  shows "provider s' = provider s" "celery s' = celery s" "not_ran_tasks s' = not_ran_tasks s"
    "dep_status s' = dep_status s"
  using assms by (auto simp: load_computers_def split: sum.splits)





section \<open>Dependency Gate\<close>




section \<open>Multi-GPU placement\<close>

text \<open>
  C3, as amended. Let a task of the table with a dag request \<open>g \<ge> 1\<close> GPUs. The
  candidates are computed without an exception. When fewer than \<open>g\<close> GPU slots are free
  over the candidates, or over all computers, \<open>process_task\<close> returns with the state
  unchanged: no service task, the parent as it was. When at least \<open>g\<close> are free (in
  particular exactly \<open>g\<close>), the rendezvous port is looked up on the first candidate:
  if that raises, the exception leaves \<open>process_task\<close> with the state unchanged;
  otherwise \<open>process_task\<close> returns normally, the parent is Queued, and exactly \<open>g\<close>
  rows are appended, service tasks of the parent in status Queued with the ranks
  \<open>0, ..., g - 1\<close> in order, all with that port and with world size \<open>g\<close>.
\<close>

theorem process_task_multi_gpu:
  assumes "task \<in> set (provider s)" and "dag_rel task = Some d"
    and "gpu task = int g" and "1 \<le> g"
  shows "\<exists>cands. candidates s task [0..<length (computers s)] = Inr cands \<and>
     (free_gpu s cands < g \<or> free_gpu s [0..<length (computers s)] < g \<longrightarrow>
        process_task task s = (None, s)) \<and>
     (g \<le> free_gpu s cands \<longrightarrow>
        (\<exists>q0. queue_of (computers s ! hd cands) task = Inr q0 \<and>
           (case find_master_port s (hd cands) q0 of
              Inl e \<Rightarrow> process_task task s = (Some e, s)
            | Inr port \<Rightarrow>
                \<exists>s' rows. process_task task s = (None, s') \<and>
                  provider s' = update (task\<lparr>status := Queued\<rparr>) (provider s) @ rows \<and>
                  length rows = g \<and>
                  map (\<lambda>r. map_option rank (distr_info r)) rows = map (\<lambda>i. Some (int i)) [0..<g] \<and>
                  (\<forall>r \<in> set rows. type r = Service \<and> parent r = Some (id_of task) \<and>
                     status r = Queued \<and>
                     map_option master_port (distr_info r) = Some port \<and>
                     map_option world_size (distr_info r) = Some (int g)))))"
proof -
  have g: "0 < gpu task" using assms(3,4) by simp
  from process_task_gpu[OF assms(2) g, of s] obtain cands where
    c: "candidates s task [0..<length (computers s)] = Inr cands"
    and m: "if gpu task > int (free_gpu s cands) then process_task task s = (None, s)
      else \<exists>k0 q0 rest taken.
        cands \<noteq> [] \<and> k0 = hd cands \<and> queue_of (computers s ! k0) task = Inr q0 \<and>
        collect s task cands ([], \<lambda>_. []) = Inr ((k0, q0, 0) # rest, taken) \<and>
        Suc (length rest) = nat (gpu task) \<and>
        (case find_master_port s k0 q0 of
           Inl e \<Rightarrow> process_task task s = (Some e, s)
         | Inr port \<Rightarrow>
             \<exists>s1 rows news. process_task task s =
                 (None, s1\<lparr>provider := update (task\<lparr>status := Queued\<rparr>) (provider s @ rows)\<rparr>) \<and>
               provider s1 = provider s @ rows \<and>
               rank_rows (computers s) task k0 port 0 ((k0, q0, 0) # rest) rows \<and>
               same_frame (computers s) (computers s1) \<and> readonly s s1 \<and>
               celery s1 = celery s @ news \<and> fst ` set news \<subseteq> id_of ` set rows \<and>
               (\<forall>r \<in> set rows. \<forall>x \<in> set (provider s). id_of x < id_of r))"
    by blast
  have le: "free_gpu s cands \<le> free_gpu s [0..<length (computers s)]"
    using candidates_filter[OF c] free_gpu_filter by simp
  have short: "process_task task s = (None, s)"
    if "free_gpu s cands < g \<or> free_gpu s [0..<length (computers s)] < g"
  proof -
    from that le have "free_gpu s cands < g" by linarith
    with m assms(3) show ?thesis by simp
  qed
  have enough: "\<exists>q0. queue_of (computers s ! hd cands) task = Inr q0 \<and>
           (case find_master_port s (hd cands) q0 of
              Inl e \<Rightarrow> process_task task s = (Some e, s)
            | Inr port \<Rightarrow>
                \<exists>s' rows. process_task task s = (None, s') \<and>
                  provider s' = update (task\<lparr>status := Queued\<rparr>) (provider s) @ rows \<and>
                  length rows = g \<and>
                  map (\<lambda>r. map_option rank (distr_info r)) rows = map (\<lambda>i. Some (int i)) [0..<g] \<and>
                  (\<forall>r \<in> set rows. type r = Service \<and> parent r = Some (id_of task) \<and>
                     status r = Queued \<and>
                     map_option master_port (distr_info r) = Some port \<and>
                     map_option world_size (distr_info r) = Some (int g)))"
    if "g \<le> free_gpu s cands"
  proof -
    from that assms(3) have "\<not> gpu task > int (free_gpu s cands)" by simp
    with m obtain q0 rest where
      q0: "queue_of (computers s ! hd cands) task = Inr q0"
      and len: "Suc (length rest) = nat (gpu task)"
      and cs: "case find_master_port s (hd cands) q0 of
           Inl e \<Rightarrow> process_task task s = (Some e, s)
         | Inr port \<Rightarrow>
             \<exists>s1 rows news. process_task task s =
                 (None, s1\<lparr>provider := update (task\<lparr>status := Queued\<rparr>) (provider s @ rows)\<rparr>) \<and>
               provider s1 = provider s @ rows \<and>
               rank_rows (computers s) task (hd cands) port 0 ((hd cands, q0, 0) # rest) rows \<and>
               same_frame (computers s) (computers s1) \<and> readonly s s1 \<and>
               celery s1 = celery s @ news \<and> fst ` set news \<subseteq> id_of ` set rows \<and>
               (\<forall>r \<in> set rows. \<forall>x \<in> set (provider s). id_of x < id_of r)"
      by auto
    have "case find_master_port s (hd cands) q0 of
              Inl e \<Rightarrow> process_task task s = (Some e, s)
            | Inr port \<Rightarrow>
                \<exists>s' rows. process_task task s = (None, s') \<and>
                  provider s' = update (task\<lparr>status := Queued\<rparr>) (provider s) @ rows \<and>
                  length rows = g \<and>
                  map (\<lambda>r. map_option rank (distr_info r)) rows = map (\<lambda>i. Some (int i)) [0..<g] \<and>
                  (\<forall>r \<in> set rows. type r = Service \<and> parent r = Some (id_of task) \<and>
                     status r = Queued \<and>
                     map_option master_port (distr_info r) = Some port \<and>
                     map_option world_size (distr_info r) = Some (int g))"
    proof (cases "find_master_port s (hd cands) q0")
      case (Inl e)
      with cs show ?thesis by simp
    next
      case (Inr port)
      with cs obtain s1 rows where
        p: "process_task task s =
                 (None, s1\<lparr>provider := update (task\<lparr>status := Queued\<rparr>) (provider s @ rows)\<rparr>)"
        and rr: "rank_rows (computers s) task (hd cands) port 0 ((hd cands, q0, 0) # rest) rows"
        and fresh: "\<forall>r \<in> set rows. \<forall>x \<in> set (provider s). id_of x < id_of r"
        by auto
      let ?s' = "s1\<lparr>provider := update (task\<lparr>status := Queued\<rparr>) (provider s @ rows)\<rparr>"
      have 1: "provider ?s' = update (task\<lparr>status := Queued\<rparr>) (provider s) @ rows"
        using update_new_rows[OF assms(1) fresh] by simp
      have 2: "length rows = g"
        using rank_rows_length[OF rr] len assms(3) by simp
      have 3: "map (\<lambda>r. map_option rank (distr_info r)) rows = map (\<lambda>i. Some (int i)) [0..<g]"
        using rank_rows_ranks[OF rr] len assms(3) by simp
      have 4: "type r = Service \<and> parent r = Some (id_of task) \<and> status r = Queued \<and>
                     map_option master_port (distr_info r) = Some port \<and>
                     map_option world_size (distr_info r) = Some (int g)"
        if "r \<in> set rows" for r
        using rank_rows_mem[OF rr that] assms(3) by (auto simp: rank_row_def)
      show ?thesis
        unfolding Inr using p 1 2 3 4 by auto
    qed
    with q0 show ?thesis by blast
  qed
  from c short enough show ?thesis by blast
qed

theorem process_task_multi_gpu_witness:
  "task_G \<in> set (provider cluster_G) \<and> gpu task_G = int 2 \<and>
   candidates cluster_G task_G [0..<length (computers cluster_G)] = Inr [0] \<and>
   free_gpu cluster_G [0] = 2 \<and>
   find_master_port cluster_G 0 ''A_default'' = Inr 7000 \<and>
   fst (process_task task_G cluster_G) = None \<and>
   map (map_option rank \<circ> distr_info) (provider (snd (process_task task_G cluster_G))) =
     [None, Some 0, Some 1] \<and>
   map (map_option master_port \<circ> distr_info) (provider (snd (process_task task_G cluster_G))) =
     [None, Some 7000, Some 7000] \<and>
   map (map_option world_size \<circ> distr_info) (provider (snd (process_task task_G cluster_G))) =
     [None, Some 2, Some 2] \<and>
   map status (provider (snd (process_task task_G cluster_G))) = [Queued, Queued, Queued]"
proof -
  have h1: "task_G \<in> set (provider cluster_G)" by (simp add: fixture_defs)
  have h2: "dag_rel task_G = Some \<lparr>docker_img = None\<rparr>" by (simp add: fixture_defs)
  have h3: "gpu task_G = int 2" by (simp add: fixture_defs)
  have h4: "(1::nat) \<le> 2" by simp
  have c: "candidates cluster_G task_G [0..<length (computers cluster_G)] = Inr [0]"
    by code_simp
  have f: "free_gpu cluster_G [0] = 2" by code_simp
  have p: "find_master_port cluster_G 0 ''A_default'' = Inr 7000" by code_simp
  have q: "queue_of (computers cluster_G ! 0) task_G = Inr ''A_default''" by code_simp
  from process_task_multi_gpu[OF h1 h2 h3 h4] c f p q
  have "\<exists>s' rows. process_task task_G cluster_G = (None, s') \<and> length rows = 2 \<and>
          provider s' = update (task_G\<lparr>status := Queued\<rparr>) (provider cluster_G) @ rows"
    by auto
  then have e: "fst (process_task task_G cluster_G) = None" by auto
  have r: "map (map_option rank \<circ> distr_info) (provider (snd (process_task task_G cluster_G))) =
     [None, Some 0, Some 1]" by code_simp
  have m: "map (map_option master_port \<circ> distr_info) (provider (snd (process_task task_G cluster_G))) =
     [None, Some 7000, Some 7000]" by code_simp
  have w: "map (map_option world_size \<circ> distr_info) (provider (snd (process_task task_G cluster_G))) =
     [None, Some 2, Some 2]" by code_simp
  have st: "map status (provider (snd (process_task task_G cluster_G))) = [Queued, Queued, Queued]"
    by code_simp
  from h1 h3 c f p e r m w st show ?thesis by simp
qed

text \<open>
  C3 as stated promises the \<open>g\<close> service tasks whenever \<open>g\<close> slots are free. With one
  GPU requested and exactly one free on the only candidate, but both ports of the
  docker's range reserved, \<open>find_port\<close> raises and no service task is created.
\<close>

theorem ports_exhausted:
  "gpu task_G1 = 1 \<and>
   candidates cluster_ports_taken task_G1 [0..<length (computers cluster_ports_taken)] = Inr [0] \<and>
   free_gpu cluster_ports_taken [0] = 1 \<and>
   fst (process_task task_G1 cluster_ports_taken) = Some (Exception ''All ports in A are taken'') \<and>
   provider (snd (process_task task_G1 cluster_ports_taken)) = [task_G1]"
  by code_simp

section \<open>Capacity after dispatch\<close>

text \<open>
  C4. The claim has the chosen computer's available CPU and memory decremented after
  every dispatch, 8 CPUs becoming 6 for a task with cpu 2, memory 4 and no GPU. In
  \<open>process_to_celery\<close> the two decrements stand under \<open>if task.gpu_assigned is not None\<close>,
  so for this task nothing is decremented: it is submitted to \<open>A_default\<close> and set
  Queued on A, and A's available CPU stays 8 and its memory 16.
\<close>

theorem dispatch_keeps_cpu:
  "fst (process_task task_T cluster_T) = None \<and>
   celery (snd (process_task task_T cluster_T)) = [(5, ''A_default'')] \<and>
   map status (provider (snd (process_task task_T cluster_T))) = [Queued] \<and>
   map computer_assigned (provider (snd (process_task task_T cluster_T))) = [Some ''A''] \<and>
   map c_cpu (computers cluster_T) = [8] \<and>
   map c_cpu (computers (snd (process_task task_T cluster_T))) = [8] \<and>
   map c_memory (computers (snd (process_task task_T cluster_T))) = [16]"
  by code_simp

section \<open>Collected GPU slots\<close>

text \<open>
  C5. The claim has every collected tuple name a GPU slot that is free on its computer.
  The inner loop counts \<open>index\<close> up only after a free slot, \<open>continue\<close> skipping the
  increment for an occupied one, so \<open>index\<close> is the number of free slots seen and not the
  position. On A with slot 0 held by task 7 and slot 1 free, the task asking for one GPU
  gets the service task 6 with \<open>gpu_assigned = 0\<close>, and the dispatch writes 6 over task
  7 in slot 0 while slot 1 stays free.
\<close>

theorem collected_slot_occupied:
  "map c_gpu (computers cluster_busy) = [[7, 0]] \<and>
   fst (process_task task_G1 cluster_busy) = None \<and>
   map gpu_assigned (provider (snd (process_task task_G1 cluster_busy))) = [None, Some 0] \<and>
   map id_of (provider (snd (process_task task_G1 cluster_busy))) = [5, 6] \<and>
   map c_gpu (computers (snd (process_task task_G1 cluster_busy))) = [[6, 0]]"
  by code_simp

section \<open>Capacity accounting\<close>




section \<open>Rendezvous address\<close>

text \<open>
  C8, as amended. When \<open>process_task\<close> places a multi-GPU task (it returns normally
  with a changed state), the appended rows are not empty, the first has rank 0, is
  assigned to the rendezvous host, a computer \<open>k0\<close> of the snapshot, and has the address
  \<open>localhost\<close>; every row has the address \<open>localhost\<close> when it is assigned to the
  computer of rank 0, and the IP of the rendezvous host otherwise.
\<close>

theorem rendezvous_address:
  assumes "task \<in> set (provider s)" and "dag_rel task = Some d" and "0 < gpu task"
    and "process_task task s = (None, s')" and "s' \<noteq> s"
  shows "\<exists>rows k0. provider s' = update (task\<lparr>status := Queued\<rparr>) (provider s) @ rows \<and>
           rows \<noteq> [] \<and> k0 < length (computers s) \<and>
           map_option rank (distr_info (hd rows)) = Some 0 \<and>
           computer_assigned (hd rows) = Some (c_name (computers s ! k0)) \<and>
           map_option master_addr (distr_info (hd rows)) = Some ''localhost'' \<and>
           (\<forall>r \<in> set rows.
              map_option master_addr (distr_info r) =
                Some (if computer_assigned r = computer_assigned (hd rows) then ''localhost''
                      else c_ip (computers s ! k0)))"
proof -
  from process_task_placed[OF assms] obtain k0 q0 rest port rows where
    k0: "k0 < length (computers s)"
    and prov: "provider s' = update (task\<lparr>status := Queued\<rparr>) (provider s) @ rows"
    and rr: "rank_rows (computers s) task k0 port 0 ((k0, q0, 0) # rest) rows"
    by blast
  from rank_rows_hd[OF rr] obtain r0 rs where rows: "rows = r0 # rs"
    and r0: "rank_row (computers s) task k0 port 0 (k0, q0, 0) r0" by blast
  have hd: "map_option rank (distr_info (hd rows)) = Some 0"
    "computer_assigned (hd rows) = Some (c_name (computers s ! k0))"
    "map_option master_addr (distr_info (hd rows)) = Some ''localhost''"
    using r0 by (auto simp: rows rank_row_def)
  have all: "map_option master_addr (distr_info r) =
                Some (if computer_assigned r = computer_assigned (hd rows) then ''localhost''
                      else c_ip (computers s ! k0))"
    if "r \<in> set rows" for r
    using rank_rows_mem[OF rr that] hd(2) by (auto simp: rank_row_def)
  from prov rows k0 hd all show ?thesis by blast
qed

theorem rendezvous_address_witness:
  "task_G \<in> set (provider cluster_AB) \<and> fst (process_task task_G cluster_AB) = None \<and>
   map c_ip (computers cluster_AB) = [''10.0.0.1'', ''10.0.0.2''] \<and>
   map_option master_addr (distr_info (provider (snd (process_task task_G cluster_AB)) ! 1)) =
     Some ''localhost'' \<and>
   map computer_assigned (provider (snd (process_task task_G cluster_AB))) =
     [None, Some ''A'', Some ''B''] \<and>
   map (map_option rank \<circ> distr_info) (provider (snd (process_task task_G cluster_AB))) =
     [None, Some 0, Some 1] \<and>
   map (map_option master_addr \<circ> distr_info) (provider (snd (process_task task_G cluster_AB))) =
     [None, Some ''localhost'', Some ''10.0.0.1'']"
proof -
  let ?s' = "snd (process_task task_G cluster_AB)"
  have h1: "task_G \<in> set (provider cluster_AB)" by (simp add: fixture_defs)
  have h2: "dag_rel task_G = Some \<lparr>docker_img = None\<rparr>" by (simp add: fixture_defs)
  have h3: "0 < gpu task_G" by (simp add: fixture_defs)
  have e: "fst (process_task task_G cluster_AB) = None" by code_simp
  then have h4: "process_task task_G cluster_AB = (None, ?s')"
    by (simp add: prod_eq_iff)
  have "length (provider ?s') = 3" by code_simp
  moreover have len: "length (provider cluster_AB) = 1" by (simp add: fixture_defs)
  ultimately have h5: "?s' \<noteq> cluster_AB" by auto
  from rendezvous_address[OF h1 h2 h3 h4 h5] obtain rows where
    prov: "provider ?s' = update (task_G\<lparr>status := Queued\<rparr>) (provider cluster_AB) @ rows"
    and ne: "rows \<noteq> []"
    and first: "map_option master_addr (distr_info (hd rows)) = Some ''localhost''"
    by blast
  have "provider ?s' ! 1 = hd rows"
    using ne by (simp add: prov nth_append update_length len hd_conv_nth)
  with first have l: "map_option master_addr (distr_info (provider ?s' ! 1)) = Some ''localhost''"
    by simp
  have ip: "map c_ip (computers cluster_AB) = [''10.0.0.1'', ''10.0.0.2'']"
    by (simp add: fixture_defs)
  have a: "map computer_assigned (provider ?s') = [None, Some ''A'', Some ''B'']" by code_simp
  have r: "map (map_option rank \<circ> distr_info) (provider ?s') = [None, Some 0, Some 1]"
    by code_simp
  have m: "map (map_option master_addr \<circ> distr_info) (provider ?s') =
     [None, Some ''localhost'', Some ''10.0.0.1'']" by code_simp
  from h1 e ip l a r m show ?thesis by simp
qed

text \<open>
  C8 as stated gives every rank other than 0 the IP of rank 0's computer. With both
  GPUs of the job on A, rank 1 is on the rendezvous host itself and its address is
  \<open>localhost\<close>, not A's IP 10.0.0.1.
\<close>

theorem second_rank_localhost:
  "fst (process_task task_G cluster_G) = None \<and>
   map c_ip (computers cluster_G) = [''10.0.0.1''] \<and>
   map (map_option rank \<circ> distr_info) (provider (snd (process_task task_G cluster_G))) =
     [None, Some 0, Some 1] \<and>
   map computer_assigned (provider (snd (process_task task_G cluster_G))) =
     [None, Some ''A'', Some ''A''] \<and>
   map (map_option master_addr \<circ> distr_info) (provider (snd (process_task task_G cluster_G))) =
     [None, Some ''localhost'', Some ''localhost'']"
  by code_simp

section \<open>Rendezvous port\<close>




section \<open>Debug tasks\<close>

text \<open>
  C10. Let the task table have distinct primary keys and let row \<open>i\<close> have its debug
  flag set. After \<open>load_tasks\<close> the row is not in \<open>not_ran_tasks\<close> and, when \<open>load_tasks\<close>
  returned normally, \<open>dep_status\<close> has no entry for it. After \<open>load_computers\<close> and
  \<open>process_tasks\<close>, however they end, the row is unchanged (so it is not Skipped and
  not Queued) and no submission to the work queue carries its id.
\<close>

theorem debug_task_excluded:
  assumes "distinct (map id_of (provider s))"
    and "i < length (provider s)" and "debug (provider s ! i)"
    and "load_tasks s = (e1, s1)" and "load_computers s1 = (e2, s2)"
    and "process_tasks s2 = (e3, s3)"
  shows "provider s ! i \<notin> set (not_ran_tasks s1) \<and>
         (e1 = None \<longrightarrow> dep_status s1 (id_of (provider s ! i)) = None) \<and>
         provider s3 ! i = provider s ! i \<and>
         (\<exists>news. celery s3 = celery s @ news \<and> id_of (provider s ! i) \<notin> fst ` set news)"
proof -
  let ?d = "provider s ! i"
  note lt = load_tasks_facts[OF assms(4)] and lc = load_computers_facts[OF assms(5)]
  have nr: "set (not_ran_tasks s1) \<subseteq> {t \<in> set (provider s). \<not> debug t}"
    by (auto simp: lt(3) by_status_def)
  have dmem: "?d \<in> set (provider s)" using assms(2) by simp
  have notin: "id_of ?d \<notin> id_of ` set (not_ran_tasks s1)"
  proof
    assume "id_of ?d \<in> id_of ` set (not_ran_tasks s1)"
    then obtain t where t: "t \<in> set (not_ran_tasks s1)" "id_of t = id_of ?d" by auto
    with nr have "t \<in> set (provider s)" "\<not> debug t" by auto
    with t(2) dmem assms(1) have "t = ?d" by (meson distinct_map inj_onD)
    with \<open>\<not> debug t\<close> assms(3) show False by simp
  qed
  have 1: "?d \<notin> set (not_ran_tasks s1)" using notin by blast
  have 2: "e1 = None \<longrightarrow> dep_status s1 (id_of ?d) = None"
  proof
    assume "e1 = None"
    with assms(4) have "dom (dep_status s1) = id_of ` set (not_ran_tasks s1)"
      by (simp add: load_tasks_dep_status)
    with notin show "dep_status s1 (id_of ?d) = None" by blast
  qed
  from assms(6) have l: "process_tasks_loop (not_ran_tasks s1) s2 = (e3, s3)"
    by (simp add: process_tasks_def lc(3))
  have "rows_kept (id_of ` set (not_ran_tasks s1)) (provider s) (provider s3)"
    using loop_untouched[OF l] by (simp add: untouched_def lc(1) lt(1))
  with notin assms(2) have 3: "provider s3 ! i = ?d" by (simp add: rows_kept_def)
  have dist: "distinct (map id_of (not_ran_tasks s1))"
    unfolding lt(3) by_status_def using assms(1) by (simp add: distinct_map_filter)
  have "\<exists>news. celery s3 = celery s2 @ news \<and> id_of ?d \<notin> fst ` set news"
  proof (rule loop_not_sent[OF l dist])
    show "id_of ?d \<in> id_of ` set (provider s2)" using dmem by (simp add: lc(1) lt(1))
    show "\<forall>t \<in> set (not_ran_tasks s1). id_of t = id_of ?d \<longrightarrow> \<not> runnable s2 t"
      using notin by (metis image_eqI)
  qed
  then have 4: "\<exists>news. celery s3 = celery s @ news \<and> id_of ?d \<notin> fst ` set news"
    by (simp add: lc(2) lt(2))
  from 1 2 3 4 show ?thesis by blast
qed

theorem debug_task_excluded_witness:
  "debug (provider tick_debug ! 0) \<and>
   fst (load_tasks tick_debug) = None \<and>
   map id_of (not_ran_tasks (snd (load_tasks tick_debug))) = [2] \<and>
   provider (snd (process_tasks (snd (load_computers (snd (load_tasks tick_debug)))))) ! 0 =
     provider tick_debug ! 0 \<and>
   celery (snd (process_tasks (snd (load_computers (snd (load_tasks tick_debug)))))) =
     [(2, ''A_default'')]"
proof -
  let ?s1 = "snd (load_tasks tick_debug)"
  let ?s2 = "snd (load_computers ?s1)"
  let ?s3 = "snd (process_tasks ?s2)"
  have h1: "distinct (map id_of (provider tick_debug))" by (simp add: fixture_defs)
  have h2: "0 < length (provider tick_debug)" by (simp add: fixture_defs)
  have h3: "debug (provider tick_debug ! 0)" by (simp add: fixture_defs)
  have h4: "load_tasks tick_debug = (fst (load_tasks tick_debug), ?s1)" by simp
  have h5: "load_computers ?s1 = (fst (load_computers ?s1), ?s2)" by simp
  have h6: "process_tasks ?s2 = (fst (process_tasks ?s2), ?s3)" by simp
  from debug_task_excluded[OF h1 h2 h3 h4 h5 h6]
  have r: "provider ?s3 ! 0 = provider tick_debug ! 0" by simp
  have e: "fst (load_tasks tick_debug) = None" by code_simp
  have n: "map id_of (not_ran_tasks ?s1) = [2]" by code_simp
  have c: "celery ?s3 = [(2, ''A_default'')]" by code_simp
  from h3 e n r c show ?thesis by simp
qed

end
